theory Spec2Isabelle
  imports Complex_Main "HOL-Library.Monad_Syntax"
begin

section \<open>Traffic governor: proxy rotation\<close>

text \<open>
  \<^verbatim>\<open>ProxyConfig\<close> and \<^verbatim>\<open>ProxyManager\<close>. The manager owns an ordered list of
  proxies and a rotation index; both are fields of the object, so every method takes the
  object and the mutating ones return it updated.
\<close>

datatype proxy_type = Http | Https | Socks4 | Socks5

record ProxyConfig =
  host :: string
  port :: nat
  username :: "string option"
  password :: "string option"
  ptype :: proxy_type

record ProxyManager =
  proxies :: "ProxyConfig list"
  currentIndex :: nat

text \<open>The constructor: the given list (default empty) and index 0.\<close>

definition newProxyManager :: "ProxyConfig list \<Rightarrow> ProxyManager" where
  "newProxyManager ps = \<lparr>proxies = ps, currentIndex = 0\<rparr>"

definition addProxy :: "ProxyManager \<Rightarrow> ProxyConfig \<Rightarrow> ProxyManager" where
  "addProxy pm p = pm\<lparr>proxies := proxies pm @ [p]\<rparr>"

text \<open>
  \<^verbatim>\<open>getRandomProxy\<close>: \<^verbatim>\<open>Math.random()\<close> is the argument \<open>r\<close>, a real in \<open>[0, 1)\<close>;
  the index is \<^verbatim>\<open>Math.floor(r * length)\<close>. A read past the end of a JavaScript array is
  \<^verbatim>\<open>undefined\<close>, which is \<open>None\<close> here as \<^verbatim>\<open>null\<close> is.
\<close>

definition getRandomProxy :: "ProxyManager \<Rightarrow> real \<Rightarrow> ProxyConfig option" where
  "getRandomProxy pm r =
     (if length (proxies pm) = 0 then None
      else let randomIndex = nat \<lfloor>r * real (length (proxies pm))\<rfloor>
           in if randomIndex < length (proxies pm) then Some (proxies pm ! randomIndex) else None)"

text \<open>
  \<^verbatim>\<open>getNextProxy\<close>: the entry at the rotation index, and the index advanced modulo the
  length. The empty list returns \<^verbatim>\<open>null\<close> before anything is read or written.
\<close>

definition getNextProxy :: "ProxyManager \<Rightarrow> ProxyConfig option \<times> ProxyManager" where
  "getNextProxy pm =
     (if length (proxies pm) = 0 then (None, pm)
      else
        let proxy = (if currentIndex pm < length (proxies pm)
                     then Some (proxies pm ! currentIndex pm) else None)
        in (proxy, pm\<lparr>currentIndex := (currentIndex pm + 1) mod length (proxies pm)\<rparr>))"

text \<open>\<open>k\<close> calls in a row: the values returned, in call order, and the manager afterwards.\<close>

fun getNextProxy_times :: "nat \<Rightarrow> ProxyManager \<Rightarrow> ProxyConfig option list \<times> ProxyManager" where
  "getNextProxy_times 0 pm = ([], pm)"
| "getNextProxy_times (Suc k) pm =
     (let (p, pm') = getNextProxy pm; (ps, pm'') = getNextProxy_times k pm'
      in (p # ps, pm''))"

text \<open>The positions of the list that \<open>k\<close> calls in a row read, in call order.\<close>

fun visited :: "nat \<Rightarrow> ProxyManager \<Rightarrow> nat list" where
  "visited 0 pm = []"
| "visited (Suc k) pm = currentIndex pm # visited k (snd (getNextProxy pm))"

text \<open>A proxy configuration with the given host, for the concrete instances below.\<close>

definition px :: "string \<Rightarrow> ProxyConfig" where
  "px h = \<lparr>host = h, port = 8080, username = None, password = None, ptype = Http\<rparr>"

section \<open>Traffic governor: rate limiter\<close>

text \<open>
  \<^verbatim>\<open>RateLimiter\<close>: a table from caller identifier to the timestamps of its admitted
  requests, oldest first, with the two limits fixed at construction. Timestamps are the
  millisecond counts of \<^verbatim>\<open>Date.now()\<close>; the clock is an argument of the model.
\<close>

record RateLimiter =
  requests :: "string \<rightharpoonup> int list"
  maxRequests :: int
  timeWindow :: int

text \<open>The constructor: the window is given in minutes and kept in milliseconds.\<close>

definition newRateLimiter :: "int \<Rightarrow> int \<Rightarrow> RateLimiter" where
  "newRateLimiter maxReq timeWindowMinutes =
     \<lparr>requests = Map.empty, maxRequests = maxReq, timeWindow = timeWindowMinutes * 60 * 1000\<rparr>"

text \<open>
  \<^verbatim>\<open>checkRateLimit\<close> at clock reading \<open>now\<close>: the stored timestamps of the identifier
  (none stored reads as the empty list) are filtered to those younger than the window; at
  the limit the call returns \<^verbatim>\<open>false\<close> before anything is stored; otherwise \<open>now\<close> is
  pushed onto the filtered list, which is stored, and the call returns \<^verbatim>\<open>true\<close>.
\<close>

definition checkRateLimit :: "RateLimiter \<Rightarrow> int \<Rightarrow> string \<Rightarrow> bool \<times> RateLimiter" where
  "checkRateLimit rl now identifier =
     (let reqs = (case requests rl identifier of None \<Rightarrow> [] | Some ts \<Rightarrow> ts);
          validRequests = filter (\<lambda>timestamp. now - timestamp < timeWindow rl) reqs
      in if maxRequests rl \<le> int (length validRequests) then (False, rl)
         else (True, rl\<lparr>requests := (requests rl)(identifier \<mapsto> validRequests @ [now])\<rparr>))"

text \<open>
  A sequence of calls, each with the clock reading at which it runs and its identifier:
  the answers in call order, and the limiter afterwards.
\<close>

fun checkRateLimit_calls :: "RateLimiter \<Rightarrow> (int \<times> string) list \<Rightarrow> bool list \<times> RateLimiter" where
  "checkRateLimit_calls rl [] = ([], rl)"
| "checkRateLimit_calls rl ((now, identifier) # cs) =
     (let (ok, rl') = checkRateLimit rl now identifier;
          (oks, rl'') = checkRateLimit_calls rl' cs
      in (ok # oks, rl''))"

text \<open>The clock readings of the calls of one identifier that were allowed, in call order.\<close>

definition allowedTimes :: "RateLimiter \<Rightarrow> (int \<times> string) list \<Rightarrow> string \<Rightarrow> int list" where
  "allowedTimes rl cs identifier =
     map (\<lambda>(c, ok). fst c)
       (filter (\<lambda>(c, ok). ok \<and> snd c = identifier) (zip cs (fst (checkRateLimit_calls rl cs))))"

text \<open>The timestamps stored for an identifier, as \<^verbatim>\<open>this.requests.get(identifier) || []\<close> reads them.\<close>

definition stored :: "RateLimiter \<Rightarrow> string \<Rightarrow> int list" where
  "stored rl identifier = (case requests rl identifier of None \<Rightarrow> [] | Some ts \<Rightarrow> ts)"

text \<open>
  The invariant of the run, for one identifier: \<open>A\<close> is the list of clock readings admitted
  so far and \<open>lo\<close> the reading of the latest call. What is stored and what was admitted
  agree on every timestamp that a later call can still see, and no window holds more than
  the limit.
\<close>

definition inv_rl :: "RateLimiter \<Rightarrow> string \<Rightarrow> int list \<Rightarrow> int \<Rightarrow> bool" where
  "inv_rl rl i A lo \<longleftrightarrow>
     (\<forall>now \<ge> lo. filter (\<lambda>t. now - t < timeWindow rl) (stored rl i)
                 = filter (\<lambda>t. now - t < timeWindow rl) A)
     \<and> (\<forall>a. int (length (filter (\<lambda>t. a \<le> t \<and> t < a + timeWindow rl) A)) \<le> maxRequests rl)"

text \<open>A limiter of 2 requests per minute and five calls of one caller, for the concrete instance.\<close>

definition demoCalls :: "(int \<times> string) list" where
  "demoCalls = [(0, ''a''), (10, ''a''), (20, ''a''), (60000, ''a''), (60005, ''a'')]"

section \<open>Content extractor: strings and URLs\<close>

subsection \<open>String operations of the runtime\<close>

text \<open>
  A JavaScript string is modelled as a \<^typ>\<open>string\<close>; the operations below are the ones
  the extractor calls. \<^verbatim>\<open>toLowerCase\<close> is modelled on the ASCII letters; every string the
  extractor compares a lowered string with (the extension tables) is ASCII.
\<close>

definition startsWith :: "string \<Rightarrow> string \<Rightarrow> bool" where
  "startsWith s p = (take (length p) s = p)"

definition endsWith :: "string \<Rightarrow> string \<Rightarrow> bool" where
  "endsWith s e = (length e \<le> length s \<and> drop (length s - length e) s = e)"

definition upperLetters :: string where
  "upperLetters = ''ABCDEFGHIJKLMNOPQRSTUVWXYZ''"

definition lowerLetters :: string where
  "lowerLetters = ''abcdefghijklmnopqrstuvwxyz''"

definition toLowerChar :: "char \<Rightarrow> char" where
  "toLowerChar c = (case map_of (zip upperLetters lowerLetters) c of Some l \<Rightarrow> l | None \<Rightarrow> c)"

definition toLowerCase :: "string \<Rightarrow> string" where
  "toLowerCase s = map toLowerChar s"

text \<open>
  \<^verbatim>\<open>s.split(sep)\<close> for a one-character separator: the pieces between the separators, in
  order; never the empty array (\<^verbatim>\<open>"".split(".")\<close> is \<^verbatim>\<open>[""]\<close>).
\<close>

fun split :: "char \<Rightarrow> string \<Rightarrow> string list" where
  "split sep [] = [[]]"
| "split sep (c # cs) =
     (if c = sep then [] # split sep cs
      else (case split sep cs of w # ws \<Rightarrow> (c # w) # ws | [] \<Rightarrow> [[c]]))"

text \<open>\<^verbatim>\<open>arr.pop()\<close>: the last element, \<^verbatim>\<open>undefined\<close> for the empty array.\<close>

definition pop :: "'a list \<Rightarrow> 'a option" where
  "pop xs = (if xs = [] then None else Some (last xs))"

text \<open>
  White space as \<^verbatim>\<open>trim\<close> and the pattern \<^verbatim>\<open>\s\<close> see it, among the characters of the
  model: tab, line feed, vertical tab, form feed, carriage return, space and no-break
  space.
\<close>

definition isSpace :: "char \<Rightarrow> bool" where
  "isSpace c = (c \<in> set [CHR 0x09, CHR 0x0A, CHR 0x0B, CHR 0x0C, CHR 0x0D, CHR '' '', CHR 0xA0])"

definition trim :: "string \<Rightarrow> string" where
  "trim s = rev (dropWhile isSpace (rev (dropWhile isSpace s)))"

text \<open>
  \<^verbatim>\<open>a || b\<close> on values that are a string or \<^verbatim>\<open>null\<close>/\<^verbatim>\<open>undefined\<close> (\<open>None\<close>): the
  empty string and \<open>None\<close> are falsy.
\<close>

definition truthy :: "string option \<Rightarrow> bool" where
  "truthy v = (case v of None \<Rightarrow> False | Some s \<Rightarrow> s \<noteq> [])"

definition orElse :: "string option \<Rightarrow> string option \<Rightarrow> string option" where
  "orElse a b = (if truthy a then a else b)"

text \<open>\<^verbatim>\<open>v || undefined\<close>: a falsy value becomes absent.\<close>

definition orUndefined :: "string option \<Rightarrow> string option" where
  "orUndefined v = (if truthy v then v else None)"

text \<open>\<^verbatim>\<open>v || d\<close> with a string default.\<close>

definition orDefault :: "string option \<Rightarrow> string \<Rightarrow> string" where
  "orDefault v d = (case v of None \<Rightarrow> d | Some s \<Rightarrow> if s = [] then d else s)"

text \<open>
  Assignment \<^verbatim>\<open>obj[k] = v\<close> on an object used as a string-keyed table, kept as an
  association list: an existing key keeps its place, a new key goes last.
\<close>

fun setProp :: "string \<Rightarrow> 'v \<Rightarrow> (string \<times> 'v) list \<Rightarrow> (string \<times> 'v) list" where
  "setProp k v [] = [(k, v)]"
| "setProp k v ((k', v') # ps) = (if k = k' then (k, v) # ps else (k', v') # setProp k v ps)"

text \<open>
  \<^verbatim>\<open>[...new Set(xs)]\<close>: the elements in order of first occurrence, each once.
\<close>

fun dedupe :: "'a list \<Rightarrow> 'a list" where
  "dedupe [] = []"
| "dedupe (x # xs) = x # dedupe (filter (\<lambda>y. y \<noteq> x) xs)"

subsection \<open>URLs\<close>

text \<open>
  \<^verbatim>\<open>URL\<close> is the runtime's class, not code of this repository. The functions that build
  one take the constructor as an argument: \<^verbatim>\<open>new URL(s)\<close> is \<open>newURL s\<close>, with \<open>None\<close>
  for the \<^verbatim>\<open>TypeError\<close> it throws on a string that is not an absolute URL. The fields
  are the two that \<^verbatim>\<open>getLinkType\<close>, \<^verbatim>\<open>extractLinks\<close> and \<^verbatim>\<open>generateImageFilename\<close> read.
\<close>

record URL =
  hostname :: string
  pathname :: string

type_synonym url_parser = "string \<Rightarrow> URL option"

text \<open>
  A model of the constructor on the common shape
  \<^verbatim>\<open>scheme://[userinfo@]host[:port][/path][?query][#fragment]\<close> and on
  \<^verbatim>\<open>scheme:rest\<close>, for the concrete instances: a string without a scheme is rejected, the
  host is lowered, an empty path after a host reads \<^verbatim>\<open>/\<close>. Percent-encoding, dot
  segments, back slashes, port checks and host checks of the real constructor are not
  modelled; the general theorems below hold for every constructor.
\<close>

definition isUpper :: "char \<Rightarrow> bool" where
  "isUpper c = (c \<in> set upperLetters)"

definition isAlpha :: "char \<Rightarrow> bool" where
  "isAlpha c = (c \<in> set upperLetters \<or> c \<in> set lowerLetters)"

definition isDigit :: "char \<Rightarrow> bool" where
  "isDigit c = (c \<in> set ''0123456789'')"

definition isSchemeChar :: "char \<Rightarrow> bool" where
  "isSchemeChar c = (isAlpha c \<or> isDigit c \<or> c = CHR ''+'' \<or> c = CHR ''-'' \<or> c = CHR ''.'')"

definition parseURL :: url_parser where
  "parseURL s =
     (let scheme = takeWhile isSchemeChar s; rest = dropWhile isSchemeChar s
      in case scheme of
           [] \<Rightarrow> None
         | c # _ \<Rightarrow>
             if \<not> isAlpha c \<or> \<not> startsWith rest '':'' then None
             else
               let after = drop 1 rest;
                   stop = (\<lambda>c. c = CHR ''?'' \<or> c = CHR ''#'')
               in if startsWith after ''//'' then
                    let auth = takeWhile (\<lambda>c. c \<noteq> CHR ''/'' \<and> \<not> stop c) (drop 2 after);
                        tail = dropWhile (\<lambda>c. c \<noteq> CHR ''/'' \<and> \<not> stop c) (drop 2 after);
                        hostport = (case pop (split CHR ''@'' auth) of Some hp \<Rightarrow> hp | None \<Rightarrow> []);
                        h = toLowerCase (takeWhile (\<lambda>c. c \<noteq> CHR '':'') hostport);
                        p = takeWhile (\<lambda>c. \<not> stop c) tail
                    in if h = [] then None
                       else Some \<lparr>hostname = h, pathname = (if p = [] then ''/'' else p)\<rparr>
                  else Some \<lparr>hostname = [], pathname = takeWhile (\<lambda>c. \<not> stop c) after\<rparr>)"

subsection \<open>Link classification\<close>

datatype link_kind = Internal | External | Email | Phone | File

definition fileExtensions :: "string list" where
  "fileExtensions =
     [''.pdf'', ''.doc'', ''.docx'', ''.xls'', ''.xlsx'', ''.zip'', ''.rar'', ''.mp3'', ''.mp4'', ''.avi'']"

text \<open>
  \<^verbatim>\<open>getLinkType(href, baseUrl)\<close>. The three prefix tests come first. Both URLs are then
  built inside one \<^verbatim>\<open>try\<close>: if either constructor throws, the \<^verbatim>\<open>catch\<close> returns
  \<^verbatim>\<open>"internal"\<close>. The file test on the lowered path comes before the host comparison.
\<close>

definition getLinkType :: "url_parser \<Rightarrow> string \<Rightarrow> string \<Rightarrow> link_kind" where
  "getLinkType newURL hrefStr baseUrl =
     (if startsWith hrefStr ''mailto:'' then Email
      else if startsWith hrefStr ''tel:'' then Phone
      else if startsWith hrefStr ''#'' \<or> startsWith hrefStr ''/'' then Internal
      else
        (case newURL hrefStr of
           None \<Rightarrow> Internal
         | Some u \<Rightarrow>
             (case newURL baseUrl of
                None \<Rightarrow> Internal
              | Some baseUrlObj \<Rightarrow>
                  if list_ex (\<lambda>ext. endsWith (toLowerCase (pathname u)) ext) fileExtensions then File
                  else if hostname u = hostname baseUrlObj then Internal else External)))"

subsection \<open>Image format and file name\<close>

definition formats :: "string list" where
  "formats = [''jpg'', ''jpeg'', ''png'', ''gif'', ''webp'', ''svg'', ''bmp'', ''ico'']"

text \<open>
  \<^verbatim>\<open>getImageFormat(url)\<close>: the piece after the last dot of the whole string (the whole
  string when it has no dot), lowered; returned when it is one of the formats.
\<close>

definition getImageFormat :: "string \<Rightarrow> string option" where
  "getImageFormat u =
     (let extension = map_option toLowerCase (pop (split CHR ''.'' u))
      in if (case extension of None \<Rightarrow> [] | Some e \<Rightarrow> e) \<in> set formats then extension else None)"

text \<open>The decimal text of a number, as a template string prints \<^verbatim>\<open>Date.now()\<close>.\<close>

function showNat :: "nat \<Rightarrow> string" where
  "showNat n = (if n < 10 then [''0123456789'' ! n] else showNat (n div 10) @ [''0123456789'' ! (n mod 10)])"
  by pat_completeness auto
termination
  by (relation "measure (\<lambda>n. n)") auto

definition showInt :: "int \<Rightarrow> string" where
  "showInt i = (if i < 0 then CHR ''-'' # showNat (nat (- i)) else showNat (nat i))"

text \<open>
  \<^verbatim>\<open>generateImageFilename(url, format)\<close> at clock reading \<open>now\<close>; the outer \<open>None\<close> is the
  \<^verbatim>\<open>TypeError\<close> of the URL constructor. The name is the last piece of the path, or
  \<^verbatim>\<open>"image"\<close> when that piece is empty; the last line is the source's
  \<^verbatim>\<open>filename || `image_${Date.now()}.jpg`\<close>.
\<close>

definition generateImageFilename ::
    "url_parser \<Rightarrow> int \<Rightarrow> string \<Rightarrow> string option \<Rightarrow> string option" where
  "generateImageFilename newURL now u fmt =
     (case newURL u of
        None \<Rightarrow> None
      | Some urlObj \<Rightarrow>
          let filename = orDefault (pop (split CHR ''/'' (pathname urlObj))) ''image'';
              fallback = (if filename \<noteq> [] then filename else ''image_'' @ showInt now @ ''.jpg'')
          in case fmt of
               None \<Rightarrow> Some fallback
             | Some f \<Rightarrow>
                 if CHR ''.'' \<notin> set filename \<and> f \<noteq> [] then Some (filename @ ''.'' @ f)
                 else Some fallback)"

section \<open>Content extractor: regular expressions\<close>

text \<open>
  The patterns of the extractor are run by the runtime's backtracking matcher. The model
  has the constructs those patterns use: a character class, sequence, ordered
  alternation, the greedy quantifiers \<^verbatim>\<open>*\<close> and \<^verbatim>\<open>?\<close>, the end-of-input assertion
  \<^verbatim>\<open>$\<close> (no pattern has the multiline flag) and the word boundary \<^verbatim>\<open>\b\<close>. A position in
  the subject is the character before it, if any, and the text from it on.
\<close>

datatype rx =
    Cls "char \<Rightarrow> bool"
  | Eps
  | Seq rx rx
  | Alt rx rx
  | Star rx
  | Opt rx
  | Eoi
  | WordB

type_synonym pos = "char option \<times> string"

definition isWordChar :: "char \<Rightarrow> bool" where
  "isWordChar c = (isAlpha c \<or> isDigit c \<or> c = CHR ''_'')"

definition atWordBoundary :: "pos \<Rightarrow> bool" where
  "atWordBoundary p =
     ((case fst p of None \<Rightarrow> False | Some c \<Rightarrow> isWordChar c)
      \<noteq> (case snd p of [] \<Rightarrow> False | c # _ \<Rightarrow> isWordChar c))"

text \<open>
  The positions at which a match of the pattern from the given position can end, in the
  order in which backtracking tries them: the first is the match the runtime reports. A
  quantifier takes another round before it takes none (greedy), and a round that consumes
  nothing is refused, as the runtime's repeat matcher refuses it.
\<close>

fun rmatch :: "rx \<Rightarrow> pos \<Rightarrow> pos list" where
  "rmatch (Cls f) p = (case snd p of [] \<Rightarrow> [] | c # cs \<Rightarrow> if f c then [(Some c, cs)] else [])"
| "rmatch Eps p = [p]"
| "rmatch (Seq a b) p = concat (map (rmatch b) (rmatch a p))"
| "rmatch (Alt a b) p = rmatch a p @ rmatch b p"
| "rmatch (Star a) p =
     concat (map (\<lambda>q. if length (snd q) < length (snd p) then rmatch (Star a) q else [])
                 (rmatch a p)) @ [p]"
| "rmatch (Opt a) p = filter (\<lambda>q. length (snd q) < length (snd p)) (rmatch a p) @ [p]"
| "rmatch Eoi p = (if snd p = [] then [p] else [])"
| "rmatch WordB p = (if atWordBoundary p then [p] else [])"

text \<open>Derived forms: \<^verbatim>\<open>x+\<close>, \<^verbatim>\<open>x{n}\<close>, \<^verbatim>\<open>x{n,}\<close>, a literal text, a character of a set.\<close>

definition Plus :: "rx \<Rightarrow> rx" where
  "Plus a = Seq a (Star a)"

fun Times :: "nat \<Rightarrow> rx \<Rightarrow> rx" where
  "Times 0 a = Eps"
| "Times (Suc n) a = Seq a (Times n a)"

definition AtLeast :: "nat \<Rightarrow> rx \<Rightarrow> rx" where
  "AtLeast n a = Seq (Times n a) (Star a)"

fun Lit :: "string \<Rightarrow> rx" where
  "Lit [] = Eps"
| "Lit (c # cs) = Seq (Cls (\<lambda>d. d = c)) (Lit cs)"

definition OneOf :: "string \<Rightarrow> rx" where
  "OneOf cs = Cls (\<lambda>c. c \<in> set cs)"

fun Alts :: "rx list \<Rightarrow> rx" where
  "Alts [] = Eps"
| "Alts [a] = a"
| "Alts (a # as) = Alt a (Alts as)"

text \<open>
  \<^verbatim>\<open>text.match(pattern)\<close> with the global flag: the matched texts from left to right. The
  search resumes where a match ended; after an empty match, and where nothing matches,
  it moves one character on.
\<close>

function matchAll :: "rx \<Rightarrow> pos \<Rightarrow> string list" where
  "matchAll r p =
     (case rmatch r p of
        [] \<Rightarrow> (case snd p of [] \<Rightarrow> [] | c # cs \<Rightarrow> matchAll r (Some c, cs))
      | q # _ \<Rightarrow>
          if length (snd q) < length (snd p)
          then take (length (snd p) - length (snd q)) (snd p) # matchAll r q
          else [] # (case snd p of [] \<Rightarrow> [] | c # cs \<Rightarrow> matchAll r (Some c, cs)))"
  by pat_completeness auto
termination
  by (relation "measure (\<lambda>(r, p). length (snd p))") auto

definition match_g :: "string \<Rightarrow> rx \<Rightarrow> string list" where
  "match_g s r = matchAll r (None, s)"

text \<open>
  \<^verbatim>\<open>text.replace(pattern, replacement)\<close> with the global flag and a replacement without
  \<^verbatim>\<open>$\<close> references.
\<close>

function replaceAll :: "rx \<Rightarrow> string \<Rightarrow> pos \<Rightarrow> string" where
  "replaceAll r rep p =
     (case rmatch r p of
        [] \<Rightarrow> (case snd p of [] \<Rightarrow> [] | c # cs \<Rightarrow> c # replaceAll r rep (Some c, cs))
      | q # _ \<Rightarrow>
          if length (snd q) < length (snd p)
          then rep @ replaceAll r rep q
          else rep @ (case snd p of [] \<Rightarrow> [] | c # cs \<Rightarrow> c # replaceAll r rep (Some c, cs)))"
  by pat_completeness auto
termination
  by (relation "measure (\<lambda>(r, rep, p). length (snd p))") auto

definition replace_g :: "string \<Rightarrow> rx \<Rightarrow> string \<Rightarrow> string" where
  "replace_g s r rep = replaceAll r rep (None, s)"

section \<open>Content extractor: the page and the extracted content\<close>

subsection \<open>The browser session\<close>

text \<open>
  The extractor reads the page through the WebDriver session it is given. The session is
  an argument of the model: one field per command the extractor sends, each a function of
  the command's arguments. A command that rejects (no such element, stale element, script
  error, session gone) is \<open>None\<close>; the extractor's \<^verbatim>\<open>catch\<close> clauses never look at the
  error, so the model keeps none. An element is the handle the session returns for it. An
  attribute that is not set reads \<^verbatim>\<open>null\<close>, the inner \<open>None\<close> of \<open>getAttribute\<close>.
\<close>

datatype By = Css string | TagName string

type_synonym WebElement = nat

record WebDriver =
  getCurrentUrl :: "string option"
  getTitle :: "string option"
  executeScript :: "string \<Rightarrow> string option option"
  findElement :: "By \<Rightarrow> WebElement option"
  findElements :: "By \<Rightarrow> WebElement list option"
  elemFindElement :: "WebElement \<Rightarrow> By \<Rightarrow> WebElement option"
  elemFindElements :: "WebElement \<Rightarrow> By \<Rightarrow> WebElement list option"
  getAttribute :: "WebElement \<Rightarrow> string \<Rightarrow> string option option"
  getText :: "WebElement \<Rightarrow> string option"

subsection \<open>The content model\<close>

record Heading =
  level :: nat
  heading_text :: string
  heading_id :: "string option"

datatype list_kind = Ordered | Unordered

record PageList =
  list_type :: list_kind
  items :: "string list"

record Table =
  headers :: "string list"
  rows :: "string list list"
  caption :: "string option"

record FormField =
  name :: "string option"
  field_type :: string
  label :: "string option"
  placeholder :: "string option"
  required :: bool
  options :: "string list option"

record Form =
  action :: "string option"
  form_method :: "string option"
  form_fields :: "FormField list"

record ImageData =
  src :: string
  alt :: string
  img_title :: "string option"
  width :: "string option"
  height :: "string option"
  format :: "string option"
  img_size :: "nat option"
  downloaded :: "bool option"
  localPath :: "string option"

record LinkData =
  href :: string
  link_text :: string
  link_title :: "string option"
  link_type :: link_kind
  domain :: "string option"

text \<open>
  Parsed JSON. \<^verbatim>\<open>JSON.parse\<close> is the runtime's and an argument of the model, \<open>None\<close> for
  the \<^verbatim>\<open>SyntaxError\<close> it throws.
\<close>

datatype json = JNull | JBool bool | JNum int | JStr string | JArr "json list" | JObj "(string \<times> json) list"

type_synonym json_parser = "string \<Rightarrow> json option"

record Metadata =
  charset :: "string option"
  viewport :: "string option"
  robots :: "string option"
  canonical :: "string option"
  openGraph :: "(string \<times> string) list"
  twitterCard :: "(string \<times> string) list"
  jsonLd :: "json list"

text \<open>
  An entry of \<^verbatim>\<open>structuredData\<close>: a parsed JSON-LD block, or the object built for a
  microdata item, whose values are strings or (for \<^verbatim>\<open>@type\<close>) \<^verbatim>\<open>null\<close>.
\<close>

datatype structured = JsonLd json | Microdata "(string \<times> string option) list"

type_synonym SocialMediaData = "(string \<times> string) list"

record ContactInfo =
  emails :: "string list"
  phones :: "string list"
  addresses :: "string list"

record ExtractedContent =
  url :: string
  title :: string
  description :: string
  "keywords" :: "string list"
  author :: string
  publishDate :: string
  language :: string
  textContent :: string
  cleanedText :: string
  headings :: "Heading list"
  paragraphs :: "string list"
  lists :: "PageList list"
  tables :: "Table list"
  forms :: "Form list"
  images :: "ImageData list"
  links :: "LinkData list"
  metadata :: Metadata
  structuredData :: "structured list"
  socialMedia :: SocialMediaData
  contactInfo :: ContactInfo
  downloadedImages :: "string list option"

subsection \<open>Blocks that collect into an array and catch\<close>

text \<open>
  Most extractors create an array, fill it inside a \<^verbatim>\<open>try\<close> and return it after the
  \<^verbatim>\<open>catch\<close>: what was pushed before an exception stays in the result. A step of such a
  block takes the collected value and returns it as it is when the step ends, with
  \<open>True\<close> when it ended normally and \<open>False\<close> when it threw.
\<close>

type_synonym 's step = "'s \<Rightarrow> 's \<times> bool"

text \<open>A step that has changed nothing when it throws: it awaits first and pushes last.\<close>

definition atomic :: "('s \<Rightarrow> 's option) \<Rightarrow> 's step" where
  "atomic f s = (case f s of None \<Rightarrow> (s, False) | Some s' \<Rightarrow> (s', True))"

text \<open>\<^verbatim>\<open>const x = await command\<close>, and the rest of the block with \<open>x\<close>.\<close>

definition await :: "'a option \<Rightarrow> ('a \<Rightarrow> 's step) \<Rightarrow> 's step" where
  "await m k s = (case m of None \<Rightarrow> (s, False) | Some x \<Rightarrow> k x s)"

text \<open>One step after another: the second does not run when the first threw.\<close>

definition andThen :: "'s step \<Rightarrow> 's step \<Rightarrow> 's step" where
  "andThen f g s = (case f s of (s', True) \<Rightarrow> g s' | (s', False) \<Rightarrow> (s', False))"

text \<open>\<^verbatim>\<open>for (const x of xs) body\<close>: the loop ends at the first round that throws.\<close>

fun forEach :: "('a \<Rightarrow> 's step) \<Rightarrow> 'a list \<Rightarrow> 's step" where
  "forEach body [] s = (s, True)"
| "forEach body (x # xs) s =
     (case body x s of (s', True) \<Rightarrow> forEach body xs s' | (s', False) \<Rightarrow> (s', False))"

text \<open>\<^verbatim>\<open>try { block } catch { }\<close> as a step: it always ends normally.\<close>

definition tryStep :: "'s step \<Rightarrow> 's step" where
  "tryStep f s = (fst (f s), True)"

text \<open>\<^verbatim>\<open>try { block } catch { log }; return collected\<close>.\<close>

definition runTry :: "'s step \<Rightarrow> 's \<Rightarrow> 's" where
  "runTry f s = fst (f s)"

text \<open>
  The awaits of a loop over a local array that is lost when a round throws: the results
  in order, or \<open>None\<close>.
\<close>

fun mapM :: "('a \<Rightarrow> 'b option) \<Rightarrow> 'a list \<Rightarrow> 'b list option" where
  "mapM f [] = Some []"
| "mapM f (x # xs) = do { y \<leftarrow> f x; ys \<leftarrow> mapM f xs; Some (y # ys) }"

section \<open>Content extractor: the field extractors\<close>

text \<open>
  \<^verbatim>\<open>getMetaContent\<close> and \<^verbatim>\<open>getLinkHref\<close>: the \<^verbatim>\<open>catch\<close> returns \<^verbatim>\<open>undefined\<close>, which
  the model does not tell from an attribute that reads \<^verbatim>\<open>null\<close>.
\<close>

definition getMetaContent :: "WebDriver \<Rightarrow> string \<Rightarrow> string option" where
  \<open>getMetaContent d nm =
     (case do { element \<leftarrow> findElement d (Css (''meta[name="'' @ nm @ ''"], meta[property="'' @ nm @ ''"]''));
                getAttribute d element ''content'' }
      of None \<Rightarrow> None | Some v \<Rightarrow> v)\<close>

definition getLinkHref :: "WebDriver \<Rightarrow> string \<Rightarrow> string option" where
  \<open>getLinkHref d rel =
     (case do { element \<leftarrow> findElement d (Css (''link[rel="'' @ rel @ ''"]''));
                getAttribute d element ''href'' }
      of None \<Rightarrow> None | Some v \<Rightarrow> v)\<close>

text \<open>One round of the two meta-tag loops of \<^verbatim>\<open>extractMetadata\<close>: the attribute that names
  the entry, then the content; the entry is set when both are truthy.\<close>

definition metaEntry ::
    "WebDriver \<Rightarrow> string \<Rightarrow> WebElement \<Rightarrow> (string \<times> string) list \<Rightarrow> (string \<times> string) list option" where
  "metaEntry d attr tag tbl =
     do { property \<leftarrow> getAttribute d tag attr;
          content \<leftarrow> getAttribute d tag ''content'';
          Some (case (property, content) of
                  (Some p, Some c) \<Rightarrow> if p \<noteq> [] \<and> c \<noteq> [] then setProp p c tbl else tbl
                | _ \<Rightarrow> tbl) }"

text \<open>
  One round of a JSON-LD loop, with its own \<^verbatim>\<open>try\<close>: the block's text is read and, when
  truthy, parsed and pushed; an exception of either skips the block.
\<close>

definition jsonLdRound :: "json_parser \<Rightarrow> WebDriver \<Rightarrow> WebElement \<Rightarrow> json list \<Rightarrow> json list" where
  "jsonLdRound jsonParse d script acc =
     (case do { content \<leftarrow> getAttribute d script ''innerHTML'';
                if truthy content then do { j \<leftarrow> jsonParse (orDefault content []); Some (acc @ [j]) }
                else Some acc }
      of None \<Rightarrow> acc | Some acc' \<Rightarrow> acc')"

definition extractMetadata :: "json_parser \<Rightarrow> WebDriver \<Rightarrow> Metadata" where
  \<open>extractMetadata jsonParse d =
     runTry
       (andThen
          (\<lambda>m. (m\<lparr>charset := getMetaContent d ''charset'',
                   viewport := getMetaContent d ''viewport'',
                   robots := getMetaContent d ''robots'',
                   canonical := getLinkHref d ''canonical''\<rparr>, True))
          (await (findElements d (Css ''meta[property^="og:"]'')) (\<lambda>ogTags.
             andThen
               (forEach (\<lambda>tag. atomic (\<lambda>m. do { og \<leftarrow> metaEntry d ''property'' tag (openGraph m);
                                                   Some (m\<lparr>openGraph := og\<rparr>) })) ogTags)
               (await (findElements d (Css ''meta[name^="twitter:"]'')) (\<lambda>twitterTags.
                  andThen
                    (forEach (\<lambda>tag. atomic (\<lambda>m. do { tw \<leftarrow> metaEntry d ''name'' tag (twitterCard m);
                                                        Some (m\<lparr>twitterCard := tw\<rparr>) })) twitterTags)
                    (await (findElements d (Css ''script[type="application/ld+json"]'')) (\<lambda>jsonLdScripts.
                       forEach (\<lambda>script m. (m\<lparr>jsonLd := jsonLdRound jsonParse d script (jsonLd m)\<rparr>, True))
                               jsonLdScripts)))))))
       \<lparr>charset = None, viewport = None, robots = None, canonical = None,
        openGraph = [], twitterCard = [], jsonLd = []\<rparr>\<close>

definition extractKeywords :: "WebDriver \<Rightarrow> string list" where
  "extractKeywords d =
     (let keywordsContent = getMetaContent d ''keywords''
      in if truthy keywordsContent
         then filter (\<lambda>k. 0 < length k) (map trim (split CHR '','' (orDefault keywordsContent [])))
         else [])"

definition extractTextContent :: "WebDriver \<Rightarrow> string" where
  "extractTextContent d =
     (case do { body \<leftarrow> findElement d (TagName ''body''); getText d body }
      of None \<Rightarrow> [] | Some t \<Rightarrow> t)"

definition cleanText :: "string \<Rightarrow> string" where
  "cleanText t =
     trim (replace_g (replace_g t (Plus (Cls isSpace)) '' '')
                     (Seq (Lit [CHR 0x0A]) (Seq (Star (Cls isSpace)) (Lit [CHR 0x0A]))) [CHR 0x0A])"

definition extractHeadings :: "WebDriver \<Rightarrow> Heading list" where
  "extractHeadings d =
     sort_key level
       (runTry
          (forEach (\<lambda>lv. await (findElements d (TagName (''h'' @ showNat lv))) (\<lambda>elements.
              forEach (\<lambda>element. atomic (\<lambda>hs.
                  do { t \<leftarrow> getText d element;
                       i \<leftarrow> getAttribute d element ''id'';
                       Some (if trim t \<noteq> []
                             then hs @ [\<lparr>level = lv, heading_text = trim t, heading_id = orUndefined i\<rparr>]
                             else hs) })) elements))
             [1, 2, 3, 4, 5, 6])
          [])"

definition extractParagraphs :: "WebDriver \<Rightarrow> string list" where
  "extractParagraphs d =
     runTry
       (await (findElements d (TagName ''p'')) (\<lambda>elements.
          forEach (\<lambda>element. atomic (\<lambda>ps.
              do { t \<leftarrow> getText d element;
                   Some (if trim t \<noteq> [] \<and> 10 < length t then ps @ [trim t] else ps) })) elements))
       []"

text \<open>One round of either loop of \<^verbatim>\<open>extractLists\<close>: the items are collected in an array
  local to the round, and the list is pushed when it has an item.\<close>

definition listRound :: "WebDriver \<Rightarrow> list_kind \<Rightarrow> WebElement \<Rightarrow> PageList list \<Rightarrow> PageList list option" where
  "listRound d kind el acc =
     do { its \<leftarrow> elemFindElements d el (TagName ''li'');
          texts \<leftarrow> mapM (getText d) its;
          let listItems = map trim (filter (\<lambda>t. trim t \<noteq> []) texts);
          Some (if 0 < length listItems then acc @ [\<lparr>list_type = kind, items = listItems\<rparr>] else acc) }"

definition extractLists :: "WebDriver \<Rightarrow> PageList list" where
  "extractLists d =
     runTry
       (await (findElements d (TagName ''ol'')) (\<lambda>olElements.
          andThen
            (forEach (\<lambda>ol. atomic (listRound d Ordered ol)) olElements)
            (await (findElements d (TagName ''ul'')) (\<lambda>ulElements.
               forEach (\<lambda>ul. atomic (listRound d Unordered ul)) ulElements))))
       []"

text \<open>
  One round of the table loop: three blocks, each with its own \<^verbatim>\<open>try\<close>, so the round
  never throws; the headers and the rows read before an exception are kept.
\<close>

definition tableRound :: "WebDriver \<Rightarrow> WebElement \<Rightarrow> Table list \<Rightarrow> Table list" where
  "tableRound d tbl acc =
     (let cap = do { captionElement \<leftarrow> elemFindElement d tbl (TagName ''caption'');
                     getText d captionElement };
          hdrs = runTry
                   (await (elemFindElements d tbl (Css ''thead th, tr:first-child th'')) (\<lambda>headerElements.
                      forEach (\<lambda>header. atomic (\<lambda>hs. do { t \<leftarrow> getText d header; Some (hs @ [trim t]) }))
                              headerElements))
                   [];
          rws = runTry
                  (await (elemFindElements d tbl (Css ''tbody tr, tr'')) (\<lambda>rowElements.
                     forEach (\<lambda>row. atomic (\<lambda>rs.
                         do { cellElements \<leftarrow> elemFindElements d row (Css ''td, th'');
                              texts \<leftarrow> mapM (getText d) cellElements;
                              let rowData = map trim texts;
                              Some (if 0 < length rowData then rs @ [rowData] else rs) })) rowElements))
                  []
      in if 0 < length rws then acc @ [\<lparr>headers = hdrs, rows = rws, caption = cap\<rparr>] else acc)"

definition extractTables :: "WebDriver \<Rightarrow> Table list" where
  "extractTables d =
     runTry
       (await (findElements d (TagName ''table'')) (\<lambda>tableElements.
          forEach (\<lambda>tbl acc. (tableRound d tbl acc, True)) tableElements))
       []"

text \<open>
  One form field. The label and the options are read in \<^verbatim>\<open>try\<close> blocks of their own;
  the other attribute reads are not, and an exception of one leaves the round of the form
  loop.
\<close>

definition formField :: "WebDriver \<Rightarrow> WebElement \<Rightarrow> FormField option" where
  \<open>formField d input =
     do { ty \<leftarrow> getAttribute d input ''type'';
          nm \<leftarrow> getAttribute d input ''name'';
          ph \<leftarrow> getAttribute d input ''placeholder'';
          rq \<leftarrow> getAttribute d input ''required'';
          let type = orDefault ty ''text'';
          let lbl = (case do { i \<leftarrow> getAttribute d input ''id'';
                               if truthy i
                               then do { labelElement \<leftarrow> findElement d (Css (''label[for="'' @ orDefault i [] @ ''"]''));
                                         t \<leftarrow> getText d labelElement;
                                         Some (Some t) }
                               else Some None }
                     of None \<Rightarrow> None | Some l \<Rightarrow> l);
          let opts = (if type = ''select''
                      then (case elemFindElements d input (TagName ''option'') of
                              None \<Rightarrow> None
                            | Some optionElements \<Rightarrow>
                                Some (runTry
                                  (forEach (\<lambda>option. atomic (\<lambda>os.
                                      do { t \<leftarrow> getText d option;
                                           Some (if trim t \<noteq> [] then os @ [trim t] else os) })) optionElements)
                                  []))
                      else None);
          Some \<lparr>name = orUndefined nm, field_type = type, label = orUndefined lbl,
                placeholder = orUndefined ph, required = (rq \<noteq> None), options = opts\<rparr> }\<close>

definition extractForms :: "WebDriver \<Rightarrow> Form list" where
  "extractForms d =
     runTry
       (await (findElements d (TagName ''form'')) (\<lambda>formElements.
          forEach (\<lambda>form. atomic (\<lambda>acc.
              do { act \<leftarrow> getAttribute d form ''action'';
                   meth \<leftarrow> getAttribute d form ''method'';
                   inputElements \<leftarrow> elemFindElements d form (Css ''input, textarea, select'');
                   flds \<leftarrow> mapM (formField d) inputElements;
                   Some (acc @ [\<lparr>action = orUndefined act, form_method = orUndefined meth,
                                  form_fields = flds\<rparr>]) })) formElements))
       []"

text \<open>
  \<^verbatim>\<open>extractImages\<close>. \<^verbatim>\<open>new URL(src, baseUrl).href\<close> is the argument \<open>resolveHref\<close>, with
  \<open>None\<close> for the \<^verbatim>\<open>TypeError\<close> of the constructor, which is inside the \<^verbatim>\<open>try\<close> of the
  whole loop.
\<close>

definition imageRound ::
    "(string \<Rightarrow> string \<Rightarrow> string option) \<Rightarrow> WebDriver \<Rightarrow> string \<Rightarrow> WebElement
       \<Rightarrow> ImageData list \<Rightarrow> ImageData list option" where
  "imageRound resolveHref d baseUrl img acc =
     do { s \<leftarrow> getAttribute d img ''src'';
          a \<leftarrow> getAttribute d img ''alt'';
          t \<leftarrow> getAttribute d img ''title'';
          w \<leftarrow> getAttribute d img ''width'';
          h \<leftarrow> getAttribute d img ''height'';
          if truthy s
          then do { absoluteSrc \<leftarrow> resolveHref (orDefault s []) baseUrl;
                    Some (acc @ [\<lparr>src = absoluteSrc, alt = orDefault a [], img_title = orUndefined t,
                                   width = orUndefined w, height = orUndefined h,
                                   format = getImageFormat absoluteSrc,
                                   img_size = None, downloaded = None, localPath = None\<rparr>]) }
          else Some acc }"

definition extractImages :: "(string \<Rightarrow> string \<Rightarrow> string option) \<Rightarrow> WebDriver \<Rightarrow> string \<Rightarrow> ImageData list" where
  "extractImages resolveHref d baseUrl =
     runTry
       (await (findElements d (TagName ''img'')) (\<lambda>imgElements.
          forEach (\<lambda>img. atomic (imageRound resolveHref d baseUrl img)) imgElements))
       []"

text \<open>
  \<^verbatim>\<open>extractLinks\<close>. The domain is read from a second \<^verbatim>\<open>new URL(href)\<close>, built only when
  the type is \<^verbatim>\<open>"external"\<close>.
\<close>

definition linkData :: "url_parser \<Rightarrow> string \<Rightarrow> string \<Rightarrow> string \<Rightarrow> string option \<Rightarrow> LinkData option" where
  "linkData newURL baseUrl h t ttl =
     (let type = getLinkType newURL h baseUrl
      in do { dom \<leftarrow> (if type = External then map_option (\<lambda>u. Some (hostname u)) (newURL h)
                       else Some None);
              Some \<lparr>href = h, link_text = trim t, link_title = orUndefined ttl,
                    link_type = type, domain = dom\<rparr> })"

definition linkRound ::
    "url_parser \<Rightarrow> WebDriver \<Rightarrow> string \<Rightarrow> WebElement \<Rightarrow> LinkData list \<Rightarrow> LinkData list option" where
  "linkRound newURL d baseUrl link acc =
     do { h \<leftarrow> getAttribute d link ''href'';
          t \<leftarrow> getText d link;
          ttl \<leftarrow> getAttribute d link ''title'';
          if truthy h
          then do { l \<leftarrow> linkData newURL baseUrl (orDefault h []) t ttl; Some (acc @ [l]) }
          else Some acc }"

definition extractLinks :: "url_parser \<Rightarrow> WebDriver \<Rightarrow> string \<Rightarrow> LinkData list" where
  "extractLinks newURL d baseUrl =
     runTry
       (await (findElements d (TagName ''a'')) (\<lambda>linkElements.
          forEach (\<lambda>link. atomic (linkRound newURL d baseUrl link)) linkElements))
       []"

text \<open>
  One round of the microdata loop, with its own \<^verbatim>\<open>try\<close>. The text of a property is read
  only when its \<^verbatim>\<open>content\<close> attribute is falsy. The object pushed is
  \<^verbatim>\<open>{"@type": itemType, ...properties}\<close>.
\<close>

definition microdataRound :: "WebDriver \<Rightarrow> WebElement \<Rightarrow> structured list \<Rightarrow> structured list" where
  "microdataRound d element acc =
     (case do { itemType \<leftarrow> getAttribute d element ''itemtype'';
                propElements \<leftarrow> elemFindElements d element (Css ''[itemprop]'');
                let (properties, ok) =
                  forEach (\<lambda>prop. atomic (\<lambda>ps.
                      do { nm \<leftarrow> getAttribute d prop ''itemprop'';
                           c \<leftarrow> getAttribute d prop ''content'';
                           content \<leftarrow> (if truthy c then Some c else map_option Some (getText d prop));
                           Some (case (nm, content) of
                                   (Some n, Some v) \<Rightarrow> if n \<noteq> [] \<and> v \<noteq> [] then setProp n v ps else ps
                                 | _ \<Rightarrow> ps) })) propElements [];
                if ok
                then Some (if 0 < length properties
                           then acc @ [Microdata (fold (\<lambda>(k, v). setProp k (Some v)) properties
                                                       [(''@type'', itemType)])]
                           else acc)
                else None }
      of None \<Rightarrow> acc | Some acc' \<Rightarrow> acc')"

definition extractStructuredData :: "json_parser \<Rightarrow> WebDriver \<Rightarrow> structured list" where
  \<open>extractStructuredData jsonParse d =
     runTry
       (await (findElements d (Css ''script[type="application/ld+json"]'')) (\<lambda>jsonLdElements.
          andThen
            (forEach (\<lambda>element acc.
                 (acc @ map JsonLd (jsonLdRound jsonParse d element []), True)) jsonLdElements)
            (await (findElements d (Css ''[itemscope]'')) (\<lambda>microdataElements.
               forEach (\<lambda>element acc. (microdataRound d element acc, True)) microdataElements))))
       []\<close>

definition socialSelectors :: "(string \<times> string) list" where
  \<open>socialSelectors =
     [(''facebook'', ''a[href*="facebook.com"], a[href*="fb.com"]''),
      (''twitter'', ''a[href*="twitter.com"], a[href*="x.com"]''),
      (''instagram'', ''a[href*="instagram.com"]''),
      (''linkedin'', ''a[href*="linkedin.com"]''),
      (''youtube'', ''a[href*="youtube.com"], a[href*="youtu.be"]''),
      (''tiktok'', ''a[href*="tiktok.com"]'')]\<close>

definition extractSocialMedia :: "WebDriver \<Rightarrow> SocialMediaData" where
  "extractSocialMedia d =
     runTry
       (forEach (\<lambda>(platform, selector) sm.
            (case do { element \<leftarrow> findElement d (Css selector);
                       h \<leftarrow> getAttribute d element ''href'';
                       Some (if truthy h then setProp platform (orDefault h []) sm else sm) }
             of None \<Rightarrow> sm | Some sm' \<Rightarrow> sm', True))
          socialSelectors)
       []"

section \<open>Content extractor: contact information and the aggregate\<close>

definition Seqs :: "rx list \<Rightarrow> rx" where
  "Seqs rs = foldr Seq rs Eps"

text \<open>
  \<^verbatim>\<open>/\b[A-Za-z0-9._%+-]+@[A-Za-z0-9.-]+\.[A-Z|a-z]{2,}\b/g\<close>
\<close>

definition emailRegex :: rx where
  "emailRegex =
     Seqs [WordB,
           Plus (Cls (\<lambda>c. isAlpha c \<or> isDigit c \<or> c \<in> set ''._%+-'')),
           Lit ''@'',
           Plus (Cls (\<lambda>c. isAlpha c \<or> isDigit c \<or> c \<in> set ''.-'')),
           Lit ''.'',
           AtLeast 2 (Cls (\<lambda>c. isAlpha c \<or> c = CHR ''|'')),
           WordB]"

text \<open>
  The phone pattern as the source has it:
  \<^verbatim>\<open>/(\+?1?[-.\s]?)?$$?([0-9]{3})$$?[-.\s]?([0-9]{3})[-.\s]?([0-9]{4})/g\<close>.
  Where parentheses around the area code were meant, the source has \<^verbatim>\<open>$$?\<close>: the
  end-of-input assertion, and the assertion again under \<^verbatim>\<open>?\<close>. ECMAScript's grammar has
  no quantifier on an assertion other than a lookahead; an engine either takes the
  pattern with the second \<^verbatim>\<open>$\<close> optional, as modelled here, or rejects it with a
  \<^verbatim>\<open>SyntaxError\<close> (see \<open>extractContactInfo\<close>).
\<close>

definition phoneRegex :: rx where
  "phoneRegex =
     Seqs [Opt (Seqs [Opt (Lit ''+''), Opt (Lit ''1''), Opt (Cls (\<lambda>c. c \<in> set ''-.'' \<or> isSpace c))]),
           Eoi, Opt Eoi,
           Times 3 (Cls isDigit),
           Eoi, Opt Eoi,
           Opt (Cls (\<lambda>c. c \<in> set ''-.'' \<or> isSpace c)),
           Times 3 (Cls isDigit),
           Opt (Cls (\<lambda>c. c \<in> set ''-.'' \<or> isSpace c)),
           Times 4 (Cls isDigit)]"

text \<open>
  \<^verbatim>\<open>/\d+\s+[A-Za-z0-9\s,.-]+(?:Street|St|Avenue|Ave|Road|Rd|Boulevard|Blvd|Lane|Ln|Drive|Dr|Court|Ct|Place|Pl)\s*,?\s*[A-Za-z\s]+,?\s*[A-Z]{2}\s*\d{5}/g\<close>
\<close>

definition addressRegex :: rx where
  "addressRegex =
     Seqs [Plus (Cls isDigit),
           Plus (Cls isSpace),
           Plus (Cls (\<lambda>c. isAlpha c \<or> isDigit c \<or> isSpace c \<or> c \<in> set '',.-'')),
           Alts (map Lit [''Street'', ''St'', ''Avenue'', ''Ave'', ''Road'', ''Rd'', ''Boulevard'', ''Blvd'',
                          ''Lane'', ''Ln'', ''Drive'', ''Dr'', ''Court'', ''Ct'', ''Place'', ''Pl'']),
           Star (Cls isSpace), Opt (Lit '',''), Star (Cls isSpace),
           Plus (Cls (\<lambda>c. isAlpha c \<or> isSpace c)),
           Opt (Lit '',''), Star (Cls isSpace),
           Times 2 (Cls isUpper),
           Star (Cls isSpace),
           Times 5 (Cls isDigit)]"

text \<open>
  \<^verbatim>\<open>extractContactInfo\<close>. The three fields start empty and are assigned one after the
  other inside one \<^verbatim>\<open>try\<close>. \<open>quantifiedAnchorOk\<close> says which engine runs the code: one
  that takes the phone pattern, or one that throws \<^verbatim>\<open>SyntaxError\<close> where the pattern is
  evaluated, after the emails are assigned and before the phones are; the \<^verbatim>\<open>catch\<close> then
  returns the object as it is. (An engine that rejects the pattern when the file is loaded
  runs none of the extractor; the model is of a file that loads.)
\<close>

definition extractContactInfo :: "bool \<Rightarrow> WebDriver \<Rightarrow> ContactInfo" where
  "extractContactInfo quantifiedAnchorOk d =
     runTry
       (\<lambda>c. let bodyText = extractTextContent d;
                 c1 = c\<lparr>emails := dedupe (match_g bodyText emailRegex)\<rparr>
             in if \<not> quantifiedAnchorOk then (c1, False)
                else (c1\<lparr>phones := dedupe (match_g bodyText phoneRegex),
                         addresses := dedupe (match_g bodyText addressRegex)\<rparr>, True))
       \<lparr>emails = [], phones = [], addresses = []\<rparr>"

text \<open>
  What the extractor takes from the runtime: the URL constructor with one argument and
  with two (read for its \<^verbatim>\<open>href\<close>), \<^verbatim>\<open>JSON.parse\<close>, and the engine's reading of the
  phone pattern.
\<close>

record Runtime =
  rt_newURL :: url_parser
  rt_resolveHref :: "string \<Rightarrow> string \<Rightarrow> string option"
  rt_jsonParse :: json_parser
  rt_quantifiedAnchorOk :: bool

text \<open>
  \<^verbatim>\<open>extractAll\<close>. The current URL, the title and the document language are read from the
  session directly, outside any \<^verbatim>\<open>try\<close>: \<open>None\<close> is the exception leaving \<^verbatim>\<open>extractAll\<close>.
  Every other field comes from an extractor that catches.
\<close>

definition extractAll :: "Runtime \<Rightarrow> WebDriver \<Rightarrow> string \<Rightarrow> ExtractedContent option" where
  "extractAll rt d baseUrl =
     do { u \<leftarrow> getCurrentUrl d;
          t \<leftarrow> getTitle d;
          let md = extractMetadata (rt_jsonParse rt) d;
          let desc = orDefault (orElse (map_of (openGraph md) ''og:description'')
                                       (getMetaContent d ''description'')) [];
          let kw = extractKeywords d;
          let auth = orDefault (orElse (map_of (openGraph md) ''og:author'')
                                       (getMetaContent d ''author'')) [];
          let pub = orDefault (orElse (map_of (openGraph md) ''og:published_time'')
                                      (getMetaContent d ''article:published_time'')) [];
          lang \<leftarrow> executeScript d ''return document.documentElement.lang'';
          let tc = extractTextContent d;
          Some \<lparr>url = u, title = t, description = desc, keywords = kw, author = auth,
                publishDate = pub, language = orDefault lang ''en'',
                textContent = tc, cleanedText = cleanText tc,
                headings = extractHeadings d,
                paragraphs = extractParagraphs d,
                lists = extractLists d,
                tables = extractTables d,
                forms = extractForms d,
                images = extractImages (rt_resolveHref rt) d baseUrl,
                links = extractLinks (rt_newURL rt) d baseUrl,
                metadata = md,
                structuredData = extractStructuredData (rt_jsonParse rt) d,
                socialMedia = extractSocialMedia d,
                contactInfo = extractContactInfo (rt_quantifiedAnchorOk rt) d,
                downloadedImages = None\<rparr> }"

section \<open>Image acquisition\<close>

text \<open>
  \<^verbatim>\<open>downloadImages\<close> fetches over HTTP and writes files. The HTTP client and the file
  system are arguments: \<open>fetch\<close> gives the response, or \<open>None\<close> when the request rejects;
  a response has its \<^verbatim>\<open>ok\<close> flag (status 200 to 299) and its body, \<open>None\<close> when reading
  the body rejects. The files written are a table from path to content; \<open>mkdirOk\<close> and
  \<open>writeOk\<close> say which directory can be created and which path can be written.
\<close>

type_synonym Buffer = "char list"

record Response =
  ok :: bool
  buffer :: "Buffer option"

record DownloadEnv =
  fetch :: "string \<Rightarrow> Response option"
  mkdirOk :: "string \<Rightarrow> bool"
  writeOk :: "string \<Rightarrow> bool"
  pathJoin :: "string \<Rightarrow> string \<Rightarrow> string"

type_synonym FileSystem = "string \<rightharpoonup> Buffer"

definition writeFile :: "DownloadEnv \<Rightarrow> FileSystem \<Rightarrow> string \<Rightarrow> Buffer \<Rightarrow> FileSystem option" where
  "writeFile env fs path buf = (if writeOk env path then Some (fs(path \<mapsto> buf)) else None)"

text \<open>
  One round of the loop of \<^verbatim>\<open>downloadImages\<close>, with its own \<^verbatim>\<open>try\<close>. Inside it, a
  response that is \<^verbatim>\<open>ok\<close> is read, named, written and pushed with its size and path; a
  response that is not \<^verbatim>\<open>ok\<close> ends the \<^verbatim>\<open>if\<close> with nothing pushed. The \<^verbatim>\<open>catch\<close>
  pushes the image with \<^verbatim>\<open>downloaded: false\<close>.
\<close>

definition downloadRound ::
    "DownloadEnv \<Rightarrow> url_parser \<Rightarrow> int \<Rightarrow> string \<Rightarrow> ImageData
       \<Rightarrow> ImageData list \<times> FileSystem \<Rightarrow> ImageData list \<times> FileSystem" where
  "downloadRound env newURL now downloadDir img st =
     (case do { response \<leftarrow> fetch env (src img);
                if ok response
                then do { buf \<leftarrow> buffer response;
                          filename \<leftarrow> generateImageFilename newURL now (src img) (format img);
                          let path = pathJoin env downloadDir filename;
                          fs' \<leftarrow> writeFile env (snd st) path buf;
                          Some (fst st @ [img\<lparr>img_size := Some (length buf), downloaded := Some True,
                                                  localPath := Some path\<rparr>], fs') }
                else Some st }
      of None \<Rightarrow> (fst st @ [img\<lparr>downloaded := Some False\<rparr>], snd st)
       | Some st' \<Rightarrow> st')"

text \<open>
  \<^verbatim>\<open>downloadImages(images, downloadDir)\<close>: the records pushed, and the files afterwards.
  The directory is created inside the outer \<^verbatim>\<open>try\<close>, before the loop: when that fails
  the \<^verbatim>\<open>catch\<close> logs and the array is returned empty.
\<close>

definition downloadImages ::
    "DownloadEnv \<Rightarrow> url_parser \<Rightarrow> int \<Rightarrow> ImageData list \<Rightarrow> string \<Rightarrow> FileSystem
       \<Rightarrow> ImageData list \<times> FileSystem" where
  "downloadImages env newURL now imgs downloadDir fs =
     (if \<not> mkdirOk env downloadDir then ([], fs)
      else fold (downloadRound env newURL now downloadDir) imgs ([], fs))"

section \<open>Session orchestration and the request handler\<close>

record ScrapingConfig =
  cfg_extractText :: bool
  cfg_extractImages :: bool
  cfg_extractLinks :: bool
  cfg_bypassAntiBot :: bool
  cfg_useProxy :: bool
  cfg_waitTime :: nat
  cfg_scrollToBottom :: bool
  cfg_proxyUrl :: "string option"
  cfg_humanBehavior :: bool
  cfg_stealthMode :: bool

text \<open>
  The automation backend, an argument of the model: the session that \<^verbatim>\<open>build()\<close> resolves
  to (\<open>None\<close> when it rejects), and for each step of \<^verbatim>\<open>initDriver\<close>, \<^verbatim>\<open>scrapeUrl\<close> and
  \<^verbatim>\<open>close\<close> that runs outside any \<^verbatim>\<open>try\<close> whether it ends normally: the code of
  \<^verbatim>\<open>initDriver\<close> that sets up the options object before it builds the session (the
  constructor and the viewport, under \<^verbatim>\<open>bypassAntiBot\<close> the arguments, the user-agent
  generator, \<^verbatim>\<open>setExperimentalOption\<close> and \<^verbatim>\<open>setUserPreferences\<close>, then the proxy and
  headless arguments), the evasion script, \<^verbatim>\<open>get(url)\<close>, the sleeps (by their place: after
  the load, after a CAPTCHA, before the extraction), the scroll script and \<^verbatim>\<open>quit()\<close>. The
  option calls are the library's and which of them run depends on the configuration, so
  \<open>optionsOk\<close> is a function of it: on a binding whose options class has no
  \<^verbatim>\<open>setExperimentalOption\<close> the call throws a \<^verbatim>\<open>TypeError\<close>, and \<open>optionsOk\<close> is \<open>False\<close> for
  every configuration with \<^verbatim>\<open>bypassAntiBot\<close> on. The session is the page as the extractor
  finds it once loaded. The lengths of the delays are not part of the model.
\<close>

record Browser =
  optionsOk :: "ScrapingConfig \<Rightarrow> bool"
  build :: "WebDriver option"
  stealthScriptOk :: bool
  navigateOk :: "string \<Rightarrow> bool"
  sleepOk :: "nat \<Rightarrow> bool"
  scrollOk :: bool
  quitOk :: bool

text \<open>
  What happens to the session, in order: it is created, \<^verbatim>\<open>quit()\<close> is called on it, the
  handler returns its response (with the HTTP status).
\<close>

datatype event = Built | Quit | Responded nat

record SeleniumScraper =
  driver :: "WebDriver option"
  config :: ScrapingConfig

text \<open>
  \<^verbatim>\<open>initDriver\<close>: the scraper afterwards, the events, and whether it resolved. The
  options are set up first: when one of those calls throws, no session is built. The
  session is assigned before the evasion script is sent, so
  a script that rejects leaves the scraper with a session. \<^verbatim>\<open>simulateHumanBehavior\<close> catches whatever it throws and changes
  nothing the model holds; it is left out here and in \<^verbatim>\<open>scrapeUrl\<close>.
\<close>

definition initDriver :: "Browser \<Rightarrow> SeleniumScraper \<Rightarrow> SeleniumScraper \<times> event list \<times> bool" where
  "initDriver br s =
     (if \<not> optionsOk br (config s) then (s, [], False)
      else
        (case build br of
           None \<Rightarrow> (s, [], False)
         | Some w \<Rightarrow>
             (s\<lparr>driver := Some w\<rparr>, [Built],
              (if cfg_bypassAntiBot (config s) then stealthScriptOk br else True))))"

definition captchaSelectors :: "string list" where
  \<open>captchaSelectors =
     [''[class*="captcha"]'', ''[id*="captcha"]'', ''[class*="recaptcha"]'', ''[id*="recaptcha"]'',
      ''iframe[src*="recaptcha"]'', ''.g-recaptcha'', ''#cf-challenge-stage'',
      ''.cf-browser-verification'', ''[class*="cloudflare"]'']\<close>

definition detectCaptcha :: "WebDriver \<Rightarrow> bool" where
  "detectCaptcha w =
     list_ex (\<lambda>selector. case findElements w (Css selector) of
                            None \<Rightarrow> False
                          | Some elements \<Rightarrow> 0 < length elements)
             captchaSelectors"

record ScrapeResult =
  content :: ExtractedContent
  captchaDetected :: bool
  timestamp :: int

text \<open>A command awaited for its effect only: the block goes on when it resolved.\<close>

definition resolved :: "bool \<Rightarrow> unit option" where
  "resolved b = (if b then Some () else None)"

text \<open>
  The \<^verbatim>\<open>try\<close> block of \<^verbatim>\<open>scrapeUrl\<close> on a session; its \<^verbatim>\<open>catch\<close> logs and throws again,
  so \<open>None\<close> is the exception leaving \<^verbatim>\<open>scrapeUrl\<close>. The result comes with the files
  written by the image download.
\<close>

definition scrapeBody ::
    "Runtime \<Rightarrow> DownloadEnv \<Rightarrow> int \<Rightarrow> Browser \<Rightarrow> ScrapingConfig \<Rightarrow> WebDriver \<Rightarrow> string
       \<Rightarrow> FileSystem \<Rightarrow> (ScrapeResult \<times> FileSystem) option" where
  "scrapeBody rt env now br cfg w u fs =
     do { _ \<leftarrow> resolved (navigateOk br u);
          _ \<leftarrow> resolved (sleepOk br 0);
          let hasCaptcha = detectCaptcha w;
          _ \<leftarrow> (if hasCaptcha then resolved (sleepOk br 1) else Some ());
          _ \<leftarrow> resolved (sleepOk br 2);
          _ \<leftarrow> (if cfg_scrollToBottom cfg then resolved (scrollOk br) else Some ());
          extractedContent \<leftarrow> extractAll rt w u;
          let (c, fs') =
            (if cfg_extractImages cfg \<and> 0 < length (images extractedContent)
             then let (dl, fs') = downloadImages env (rt_newURL rt) now (images extractedContent)
                                                 ''./downloads'' fs
                  in (extractedContent\<lparr>images := dl,
                        downloadedImages :=
                          Some (List.map_filter
                                  (\<lambda>i. if downloaded i = Some True then localPath i else None) dl)\<rparr>,
                      fs')
             else (extractedContent, fs));
          Some (\<lparr>content = c, captchaDetected = hasCaptcha, timestamp = now\<rparr>, fs') }"

text \<open>
  \<^verbatim>\<open>scrapeUrl\<close>: the result (\<open>None\<close> when it throws), the scraper afterwards, the events
  and the files.
\<close>

definition scrapeUrl ::
    "Runtime \<Rightarrow> DownloadEnv \<Rightarrow> int \<Rightarrow> Browser \<Rightarrow> SeleniumScraper \<Rightarrow> string \<Rightarrow> FileSystem
       \<Rightarrow> ScrapeResult option \<times> SeleniumScraper \<times> event list \<times> FileSystem" where
  "scrapeUrl rt env now br s u fs =
     (let (s1, ev, inited) = (if driver s = None then initDriver br s else (s, [], True))
      in if \<not> inited then (None, s1, ev, fs)
         else
           (case driver s1 of
              None \<Rightarrow> (None, s1, ev, fs)
            | Some w \<Rightarrow>
                (case scrapeBody rt env now br (config s1) w u fs of
                   None \<Rightarrow> (None, s1, ev, fs)
                 | Some (r, fs') \<Rightarrow> (Some r, s1, ev, fs'))))"

text \<open>\<^verbatim>\<open>close\<close>: the scraper afterwards, the events, and whether it resolved.\<close>

definition close :: "Browser \<Rightarrow> SeleniumScraper \<Rightarrow> SeleniumScraper \<times> event list \<times> bool" where
  "close br s =
     (case driver s of
        None \<Rightarrow> (s, [], True)
      | Some w \<Rightarrow> if quitOk br then (s\<lparr>driver := None\<rparr>, [Quit], True) else (s, [Quit], False))"

text \<open>
  The \<^verbatim>\<open>POST\<close> handler. The request body is the pair it is destructured to, \<open>None\<close> when
  \<^verbatim>\<open>request.json()\<close> rejects. The scraper is created only after the URL has passed both
  checks. \<^verbatim>\<open>scrapeUrl\<close> runs in a \<^verbatim>\<open>try\<close> whose \<^verbatim>\<open>finally\<close> awaits \<^verbatim>\<open>close()\<close>; an
  exception of either reaches the outer \<^verbatim>\<open>catch\<close>, which answers 500. The handler's
  answer is the last event.
\<close>

datatype response = Json ScrapeResult | ErrorJson nat string

definition POST ::
    "Runtime \<Rightarrow> DownloadEnv \<Rightarrow> int \<Rightarrow> Browser \<Rightarrow> (string \<times> ScrapingConfig) option \<Rightarrow> FileSystem
       \<Rightarrow> response \<times> event list \<times> FileSystem" where
  "POST rt env now br body fs =
     (case body of
        None \<Rightarrow> (ErrorJson 500 ''Scraping failed'', [Responded 500], fs)
      | Some (u, cfg) \<Rightarrow>
          if u = [] then (ErrorJson 400 ''URL is required'', [Responded 400], fs)
          else if rt_newURL rt u = None
          then (ErrorJson 400 ''Invalid URL format'', [Responded 400], fs)
          else
            let scraper = \<lparr>driver = None, config = cfg\<rparr>;
                (results, s1, ev1, fs') = scrapeUrl rt env now br scraper u fs;
                (s2, ev2, closed) = close br s1
            in (case results of
                  Some r \<Rightarrow>
                    if closed then (Json r, ev1 @ ev2 @ [Responded 200], fs')
                    else (ErrorJson 500 ''Scraping failed'', ev1 @ ev2 @ [Responded 500], fs')
                | None \<Rightarrow> (ErrorJson 500 ''Scraping failed'', ev1 @ ev2 @ [Responded 500], fs')))"

section \<open>Concrete pages and the claims' readings\<close>

text \<open>
  A page on which nothing is found (every search for one element rejects, every search
  for several finds none, no attribute is set, every text is empty), to be updated into
  the pages of the concrete instances; and a stand-in for the two-argument URL
  constructor on an absolute reference or a path under an \<^verbatim>\<open>https\<close> base.
\<close>

definition blankPage :: WebDriver where
  "blankPage =
     \<lparr>getCurrentUrl = Some ''https://x.com/'', getTitle = Some ''Demo'',
      executeScript = (\<lambda>_. Some (Some ''en'')),
      findElement = (\<lambda>_. None), findElements = (\<lambda>_. Some []),
      elemFindElement = (\<lambda>_ _. None), elemFindElements = (\<lambda>_ _. Some []),
      getAttribute = (\<lambda>_ _. Some None), getText = (\<lambda>_. Some [])\<rparr>"

definition imagePage :: WebDriver where
  "imagePage =
     blankPage\<lparr>findElements := (\<lambda>b. if b = TagName ''img'' then Some [11, 12] else Some []),
               getAttribute := (\<lambda>e a. if a = ''src''
                                       then (if e = 11 then Some (Some ''/a.PNG'')
                                             else Some (Some ''https://y.com/b.png?v=1''))
                                       else Some None)\<rparr>"

definition demoResolveHref :: "string \<Rightarrow> string \<Rightarrow> string option" where
  "demoResolveHref s base =
     (case parseURL s of
        Some _ \<Rightarrow> Some s
      | None \<Rightarrow> (case parseURL base of
                    Some b \<Rightarrow> Some (''https://'' @ hostname b @ s)
                  | None \<Rightarrow> None))"

text \<open>
  Link classification as claim C1 words it, its cases in the order the claim lists them:
  an absolute URL on the base's host is internal before the path is looked at, and what
  matches no case is external.
\<close>

definition claimedLinkType :: "url_parser \<Rightarrow> string \<Rightarrow> string \<Rightarrow> link_kind" where
  "claimedLinkType newURL h b =
     (if startsWith h ''mailto:'' then Email
      else if startsWith h ''tel:'' then Phone
      else if startsWith h ''#'' \<or> startsWith h ''/''
              \<or> (case (newURL h, newURL b) of (Some u, Some bu) \<Rightarrow> hostname u = hostname bu | _ \<Rightarrow> False)
      then Internal
      else if (case newURL h of
                 Some u \<Rightarrow> list_ex (\<lambda>ext. endsWith (pathname u) ext) fileExtensions
               | None \<Rightarrow> False)
      then File
      else External)"

text \<open>
  The runtime, the download environment, the configurations and the backend of the concrete
  instances: the model of the URL constructor, a JSON parser that rejects every text, an
  HTTP client that answers 404 to every request, a file system that takes every write, a
  configuration with every switch on and the same with \<^verbatim>\<open>bypassAntiBot\<close> off, and a
  backend on which every command resolves but whose options class has no
  \<^verbatim>\<open>setExperimentalOption\<close>.
\<close>

definition demoRuntime :: Runtime where
  "demoRuntime =
     \<lparr>rt_newURL = parseURL, rt_resolveHref = demoResolveHref, rt_jsonParse = (\<lambda>_. None),
      rt_quantifiedAnchorOk = True\<rparr>"

definition demoEnv :: DownloadEnv where
  "demoEnv =
     \<lparr>fetch = (\<lambda>_. Some \<lparr>ok = False, buffer = Some ''Not Found''\<rparr>),
      mkdirOk = (\<lambda>_. True), writeOk = (\<lambda>_. True),
      pathJoin = (\<lambda>dir file. dir @ ''/'' @ file)\<rparr>"

definition demoConfig :: ScrapingConfig where
  "demoConfig =
     \<lparr>cfg_extractText = True, cfg_extractImages = True, cfg_extractLinks = True,
      cfg_bypassAntiBot = True, cfg_useProxy = False, cfg_waitTime = 2000,
      cfg_scrollToBottom = True, cfg_proxyUrl = None, cfg_humanBehavior = True,
      cfg_stealthMode = True\<rparr>"

definition plainConfig :: ScrapingConfig where
  "plainConfig = demoConfig\<lparr>cfg_bypassAntiBot := False\<rparr>"

definition demoBrowser :: "WebDriver \<Rightarrow> Browser" where
  "demoBrowser page =
     \<lparr>optionsOk = (\<lambda>cfg. \<not> cfg_bypassAntiBot cfg), build = Some page,
      stealthScriptOk = True, navigateOk = (\<lambda>_. True), sleepOk = (\<lambda>_. True),
      scrollOk = True, quitOk = True\<rparr>"

text \<open>
  Whether a request gets a session: its body is read, its URL passes both checks of the
  handler, the option calls that its configuration asks for before \<^verbatim>\<open>build()\<close> end
  normally, and the backend builds the session.
\<close>

definition sessionCreated :: "Runtime \<Rightarrow> Browser \<Rightarrow> (string \<times> ScrapingConfig) option \<Rightarrow> bool" where
  "sessionCreated rt br body =
     (case body of
        None \<Rightarrow> False
      | Some (u, cfg) \<Rightarrow>
          u \<noteq> [] \<and> rt_newURL rt u \<noteq> None
          \<and> optionsOk br cfg \<and> build br \<noteq> None)"

text \<open>
  A page whose body has the given rendered text; an image record as \<^verbatim>\<open>extractImages\<close>
  builds it for an absolute URL; and an HTTP client that serves \<^verbatim>\<open>a.png\<close>, answers 404
  for \<^verbatim>\<open>missing.png\<close> and rejects every other request.
\<close>

definition textPage :: "string \<Rightarrow> WebDriver" where
  "textPage t =
     blankPage\<lparr>findElement := (\<lambda>b. if b = TagName ''body'' then Some 100 else None),
               getText := (\<lambda>e. if e = 100 then Some t else Some [])\<rparr>"

definition mkImage :: "string \<Rightarrow> ImageData" where
  "mkImage u =
     \<lparr>src = u, alt = [], img_title = None, width = None, height = None,
      format = getImageFormat u, img_size = None, downloaded = None, localPath = None\<rparr>"

definition mixedEnv :: DownloadEnv where
  "mixedEnv =
     demoEnv\<lparr>fetch := (\<lambda>u. if u = ''https://x.com/a.png''
                             then Some \<lparr>ok = True, buffer = Some ''PNGDATA''\<rparr>
                             else if u = ''https://x.com/missing.png''
                             then Some \<lparr>ok = False, buffer = Some ''Not Found''\<rparr>
                             else None)\<rparr>"




section \<open>Evaluation\<close>

text \<open>The defining equations that concrete instances are computed with.\<close>

lemmas char_defs = isAlpha_def isDigit_def isUpper_def isSpace_def isSchemeChar_def isWordChar_def
  upperLetters_def lowerLetters_def toLowerChar_def toLowerCase_def

lemmas str_defs = startsWith_def endsWith_def pop_def trim_def truthy_def orElse_def
  orUndefined_def orDefault_def

lemmas url_defs = parseURL_def getLinkType_def fileExtensions_def

section \<open>Proxy rotation: theorems\<close>

text \<open>
  C10. With no proxy configured, \<^verbatim>\<open>getNextProxy()\<close> and \<^verbatim>\<open>getRandomProxy()\<close> both
  return \<^verbatim>\<open>null\<close> (no exception is a value of the model's result types), and
  \<^verbatim>\<open>getNextProxy()\<close> returns the manager as it was: the rotation index is unchanged,
  whatever it was.
\<close>

theorem empty_proxy_list_returns_null:
  "getNextProxy \<lparr>proxies = [], currentIndex = i\<rparr> = (None, \<lparr>proxies = [], currentIndex = i\<rparr>)
   \<and> getRandomProxy \<lparr>proxies = [], currentIndex = i\<rparr> r = None
   \<and> currentIndex (snd (getNextProxy \<lparr>proxies = [], currentIndex = i\<rparr>)) = i"
  by (simp add: getNextProxy_def getRandomProxy_def)

subsection \<open>Round-robin rotation\<close>

lemma getNextProxy_snd:
  "proxies pm \<noteq> [] \<Longrightarrow> snd (getNextProxy pm) = pm\<lparr>currentIndex := (currentIndex pm + 1) mod length (proxies pm)\<rparr>"
  by (simp add: getNextProxy_def Let_def)

lemma getNextProxy_fst:
  "currentIndex pm < length (proxies pm) \<Longrightarrow>
   fst (getNextProxy pm) = Some (proxies pm ! currentIndex pm)"
  by (auto simp add: getNextProxy_def Let_def)

lemma upt_shift: "map f [0..<Suc k] = f 0 # map (\<lambda>j. f (Suc j)) [0..<k]"
  by (simp add: upt_conv_Cons map_Suc_upt[symmetric] del: upt_Suc)

lemma visited_eq:
  "currentIndex pm < length (proxies pm) \<Longrightarrow>
   visited k pm = map (\<lambda>j. (currentIndex pm + j) mod length (proxies pm)) [0..<k]"
proof (induction k arbitrary: pm)
  case 0 show ?case by simp
next
  case (Suc k)
  let ?pm' = "snd (getNextProxy pm)"
  let ?n = "length (proxies pm)"
  have ne: "proxies pm \<noteq> []" using Suc.prems by auto
  have p': "proxies ?pm' = proxies pm" "currentIndex ?pm' = (currentIndex pm + 1) mod ?n"
    using ne by (simp_all add: getNextProxy_snd)
  have lt: "currentIndex ?pm' < length (proxies ?pm')" using ne p' by simp
  have "visited k ?pm' = map (\<lambda>j. ((currentIndex pm + 1) mod ?n + j) mod ?n) [0..<k]"
    using Suc.IH[OF lt] p' by simp
  also have "\<dots> = map (\<lambda>j. (currentIndex pm + Suc j) mod ?n) [0..<k]"
    by (simp add: mod_add_left_eq)
  finally have IH: "visited k ?pm' = map (\<lambda>j. (currentIndex pm + Suc j) mod ?n) [0..<k]" .
  have "visited (Suc k) pm = currentIndex pm # visited k ?pm'" by simp
  also have "\<dots> = (currentIndex pm + 0) mod ?n # map (\<lambda>j. (currentIndex pm + Suc j) mod ?n) [0..<k]"
    using IH Suc.prems by simp
  also have "\<dots> = map (\<lambda>j. (currentIndex pm + j) mod ?n) [0..<Suc k]"
    by (rule upt_shift[symmetric])
  finally show ?case .
qed

lemma getNextProxy_times_eq:
  "currentIndex pm < length (proxies pm) \<Longrightarrow>
   fst (getNextProxy_times k pm) = map (\<lambda>j. Some (proxies pm ! j)) (visited k pm)"
proof (induction k arbitrary: pm)
  case 0 show ?case by simp
next
  case (Suc k)
  let ?pm' = "snd (getNextProxy pm)"
  have ne: "proxies pm \<noteq> []" using Suc.prems by auto
  have p': "proxies ?pm' = proxies pm" "currentIndex ?pm' = (currentIndex pm + 1) mod length (proxies pm)"
    using ne by (simp_all add: getNextProxy_snd)
  have lt: "currentIndex ?pm' < length (proxies ?pm')" using ne p' by simp
  show ?case using Suc.IH[OF lt] getNextProxy_fst[OF Suc.prems] p'(1)
    by (simp add: split_beta Let_def)
qed

lemma hit_iff:
  fixes n j0 k :: nat
  assumes "j0 < n"
  shows "Suc (k + (n - 1 - j0)) mod n = 0 \<longleftrightarrow> k mod n = j0"
proof -
  define q where "q = k mod n"
  have q: "q < n" using assms by (simp add: q_def)
  have e: "Suc (k + (n - 1 - j0)) = k + (n - j0)" using assms by simp
  have m: "(k + (n - j0)) mod n = (q + (n - j0)) mod n"
    unfolding q_def by (simp add: mod_add_left_eq)
  consider "q < j0" | "q = j0" | "j0 < q" by linarith
  then have "(q + (n - j0)) mod n = 0 \<longleftrightarrow> q = j0"
  proof cases
    case 1
    then have "q + (n - j0) < n" "0 < q + (n - j0)" using assms by linarith+
    then show ?thesis using 1 assms by simp
  next
    case 2
    then show ?thesis using assms by simp
  next
    case 3
    have eq: "q + (n - j0) = n + (q - j0)" and lt: "q - j0 < n" and pos: "0 < q - j0"
      using 3 assms q by linarith+
    have "(q + (n - j0)) mod n = (n + (q - j0)) mod n" by (simp only: eq)
    also have "\<dots> = (q - j0) mod n" by (rule mod_add_self1)
    also have "\<dots> = q - j0" using lt by (rule mod_less)
    finally show ?thesis using pos 3 by simp
  qed
  then show ?thesis unfolding e m q_def .
qed

lemma count_stride:
  fixes n j0 k :: nat
  assumes "j0 < n"
  shows "count_list (map (\<lambda>j. j mod n) [0..<k]) j0 = (k + (n - 1 - j0)) div n"
proof (induction k)
  case 0 show ?case using assms by simp
next
  case (Suc k)
  show ?case using Suc hit_iff[OF assms, of k]
    by (simp add: div_Suc)
qed


lemma shift_iff:
  fixes n i p j :: nat
  assumes "i < n" "p < n"
  shows "(i + j) mod n = p \<longleftrightarrow> j mod n = (p + (n - i)) mod n"
proof
  assume h: "(i + j) mod n = p"
  have "(p + (n - i)) mod n = ((i + j) mod n + (n - i)) mod n" using h by simp
  also have "\<dots> = (i + j + (n - i)) mod n" by (simp add: mod_add_left_eq)
  also have "i + j + (n - i) = j + n" using assms by simp
  also have "(j + n) mod n = j mod n" by simp
  finally show "j mod n = (p + (n - i)) mod n" by simp
next
  assume h: "j mod n = (p + (n - i)) mod n"
  have "(i + j) mod n = (i + j mod n) mod n" by (simp add: mod_add_right_eq)
  also have "\<dots> = (i + (p + (n - i))) mod n" unfolding h by (simp add: mod_add_right_eq)
  also have "i + (p + (n - i)) = p + n" using assms by simp
  also have "(p + n) mod n = p" using assms by simp
  finally show "(i + j) mod n = p" .
qed

lemma count_list_map_iff:
  "(\<And>x. f x = a \<longleftrightarrow> g x = b) \<Longrightarrow> count_list (map f xs) a = count_list (map g xs) b"
  by (induction xs) simp_all

lemma count_visited:
  assumes "currentIndex pm < length (proxies pm)" "p < length (proxies pm)"
  shows "count_list (visited k pm) p =
         (k + (length (proxies pm) - 1 - (p + (length (proxies pm) - currentIndex pm)) mod length (proxies pm)))
           div length (proxies pm)"
proof -
  let ?n = "length (proxies pm)"
  let ?j0 = "(p + (?n - currentIndex pm)) mod ?n"
  have "0 < ?n" using assms(1) by linarith
  then have j0: "?j0 < ?n" by (rule mod_less_divisor)
  have "count_list (visited k pm) p = count_list (map (\<lambda>j. (currentIndex pm + j) mod ?n) [0..<k]) p"
    by (simp add: visited_eq[OF assms(1)])
  also have "\<dots> = count_list (map (\<lambda>j. j mod ?n) [0..<k]) ?j0"
    by (rule count_list_map_iff) (rule shift_iff[OF assms])
  also have "\<dots> = (k + (?n - 1 - ?j0)) div ?n" by (rule count_stride[OF j0])
  finally show ?thesis .
qed

lemma floor_or_ceil:
  fixes n k m :: nat
  assumes "0 < n" "m \<le> n - 1"
  shows "(k + m) div n = k div n \<or> (k + m) div n = (k + n - 1) div n"
proof -
  have lo: "k div n \<le> (k + m) div n" by (rule div_le_mono) simp
  have hi: "(k + m) div n \<le> (k + (n - 1)) div n" using assms by (intro div_le_mono) simp
  have "(k + (n - 1)) div n \<le> Suc (k div n)"
  proof -
    have "(k + (n - 1)) div n \<le> (k + n) div n" by (rule div_le_mono) simp
    also have "\<dots> = Suc (k div n)" using assms by simp
    finally show ?thesis .
  qed
  moreover have "k + (n - 1) = k + n - 1" using assms by simp
  ultimately show ?thesis using lo hi by (simp only:) linarith
qed

lemma count_list_map_inj:
  "inj_on f (insert a (set xs)) \<Longrightarrow> count_list (map f xs) (f a) = count_list xs a"
  by (induction xs) (auto simp: inj_on_def)

text \<open>
  C5. For a manager whose list is not empty (the rotation index is always below the length
  of a non-empty list: it starts at 0 and is only ever set modulo the length), \<open>k\<close>
  calls of \<^verbatim>\<open>getNextProxy()\<close> return the entries at positions \<open>i, i+1, \<dots>\<close> modulo the
  length \<open>n\<close>, \<open>i\<close> being the index at the first call: round-robin with wraparound, in
  the list's own order. Each position is read \<open>\<lfloor>k/n\<rfloor>\<close> or \<open>\<lceil>k/n\<rceil>\<close> times, and when the
  configured proxies are pairwise different that is the number of times each proxy is
  returned.
\<close>

theorem getNextProxy_round_robin:
  assumes "currentIndex pm < length (proxies pm)"
  shows "fst (getNextProxy_times k pm) =
           map (\<lambda>j. Some (proxies pm ! ((currentIndex pm + j) mod length (proxies pm)))) [0..<k]
       \<and> visited k pm = map (\<lambda>j. (currentIndex pm + j) mod length (proxies pm)) [0..<k]
       \<and> (\<forall>p < length (proxies pm).
            count_list (visited k pm) p = k div length (proxies pm) \<or>
            count_list (visited k pm) p = (k + length (proxies pm) - 1) div length (proxies pm))
       \<and> (distinct (proxies pm) \<longrightarrow> (\<forall>p < length (proxies pm).
            count_list (fst (getNextProxy_times k pm)) (Some (proxies pm ! p)) =
            count_list (visited k pm) p))"
proof (intro conjI allI impI)
  let ?n = "length (proxies pm)"
  show v: "visited k pm = map (\<lambda>j. (currentIndex pm + j) mod ?n) [0..<k]"
    by (rule visited_eq[OF assms])
  show "fst (getNextProxy_times k pm) = map (\<lambda>j. Some (proxies pm ! ((currentIndex pm + j) mod ?n))) [0..<k]"
    by (simp add: getNextProxy_times_eq[OF assms] v)
next
  fix p assume p: "p < length (proxies pm)"
  let ?n = "length (proxies pm)"
  have "0 < ?n" using p by linarith
  moreover have "?n - 1 - (p + (?n - currentIndex pm)) mod ?n \<le> ?n - 1" by simp
  ultimately show "count_list (visited k pm) p = k div ?n \<or> count_list (visited k pm) p = (k + ?n - 1) div ?n"
    unfolding count_visited[OF assms p] by (rule floor_or_ceil)
next
  fix p assume d: "distinct (proxies pm)" and p: "p < length (proxies pm)"
  let ?n = "length (proxies pm)"
  have pos: "0 < ?n" using p by linarith
  have sub: "set (visited k pm) \<subseteq> {..<?n}"
    using pos by (auto simp: visited_eq[OF assms])
  have "inj_on (\<lambda>j. Some (proxies pm ! j)) {..<?n}"
    using d by (auto simp: inj_on_def nth_eq_iff_index_eq)
  then have "inj_on (\<lambda>j. Some (proxies pm ! j)) (insert p (set (visited k pm)))"
    by (rule inj_on_subset) (use sub p in auto)
  then have "count_list (map (\<lambda>j. Some (proxies pm ! j)) (visited k pm)) (Some (proxies pm ! p)) = count_list (visited k pm) p"
    by (rule count_list_map_inj)
  then show "count_list (fst (getNextProxy_times k pm)) (Some (proxies pm ! p)) = count_list (visited k pm) p"
    by (simp add: getNextProxy_times_eq[OF assms])
qed

theorem getNextProxy_round_robin_witness:
  "currentIndex (newProxyManager [px ''a'', px ''b'', px ''c'']) < length (proxies (newProxyManager [px ''a'', px ''b'', px ''c'']))
   \<and> fst (getNextProxy_times 7 (newProxyManager [px ''a'', px ''b'', px ''c''])) =
       [Some (px ''a''), Some (px ''b''), Some (px ''c''), Some (px ''a''), Some (px ''b''), Some (px ''c''), Some (px ''a'')]
   \<and> visited 7 (newProxyManager [px ''a'', px ''b'', px ''c'']) = [0, 1, 2, 0, 1, 2, 0]
   \<and> count_list (visited 7 (newProxyManager [px ''a'', px ''b'', px ''c''])) 0 = 3
   \<and> count_list (visited 7 (newProxyManager [px ''a'', px ''b'', px ''c''])) 1 = 2"
proof -
  have h: "currentIndex (newProxyManager [px ''a'', px ''b'', px ''c'']) < length (proxies (newProxyManager [px ''a'', px ''b'', px ''c'']))"
    by (simp add: newProxyManager_def)
  have e: "[0..<7] = [0, 1, 2, 3, 4, 5, 6::nat]" by (simp add: upt_rec)
  show ?thesis using h getNextProxy_round_robin[OF h, of 7]
    by (simp add: newProxyManager_def e)
qed

section \<open>Rate limiter: theorems\<close>

lemma checkRateLimit_limits [simp]:
  "maxRequests (snd (checkRateLimit rl now i)) = maxRequests rl"
  "timeWindow (snd (checkRateLimit rl now i)) = timeWindow rl"
  by (simp_all add: checkRateLimit_def Let_def)

lemma checkRateLimit_other:
  "i \<noteq> j \<Longrightarrow> stored (snd (checkRateLimit rl now i)) j = stored rl j"
  by (simp add: checkRateLimit_def Let_def stored_def)

lemma checkRateLimit_denied:
  "\<not> fst (checkRateLimit rl now i) \<Longrightarrow> snd (checkRateLimit rl now i) = rl"
  by (simp add: checkRateLimit_def Let_def split: if_splits)

lemma checkRateLimit_allowed:
  "fst (checkRateLimit rl now i) \<Longrightarrow>
   stored (snd (checkRateLimit rl now i)) i = filter (\<lambda>t. now - t < timeWindow rl) (stored rl i) @ [now]
   \<and> int (length (filter (\<lambda>t. now - t < timeWindow rl) (stored rl i))) < maxRequests rl"
  by (simp add: checkRateLimit_def Let_def stored_def split: if_splits)

lemma allowedTimes_Nil [simp]: "allowedTimes rl [] i = []"
  by (simp add: allowedTimes_def)

lemma allowedTimes_Cons:
  "allowedTimes rl ((now, j) # cs) i =
     (if fst (checkRateLimit rl now j) \<and> j = i then [now] else [])
     @ allowedTimes (snd (checkRateLimit rl now j)) cs i"
  by (auto simp add: allowedTimes_def split_beta Let_def)

lemma length_filter_mono:
  "(\<And>x. x \<in> set xs \<Longrightarrow> P x \<Longrightarrow> Q x) \<Longrightarrow> length (filter P xs) \<le> length (filter Q xs)"
  by (induction xs) auto

lemma inv_step_allowed:
  assumes inv: "inv_rl rl i A lo" and lo: "lo \<le> now" and ok: "fst (checkRateLimit rl now i)"
  shows "inv_rl (snd (checkRateLimit rl now i)) i (A @ [now]) now"
proof -
  let ?W = "timeWindow rl"
  let ?rl' = "snd (checkRateLimit rl now i)"
  have st: "stored ?rl' i = filter (\<lambda>t. now - t < ?W) (stored rl i) @ [now]"
    and lt: "int (length (filter (\<lambda>t. now - t < ?W) (stored rl i))) < maxRequests rl"
    using checkRateLimit_allowed[OF ok] by simp_all
  have surv: "filter (\<lambda>t. now - t < ?W) (stored rl i) = filter (\<lambda>t. now - t < ?W) A"
    using inv lo by (simp add: inv_rl_def)
  have part1: "filter (\<lambda>t. n - t < ?W) (stored ?rl' i) = filter (\<lambda>t. n - t < ?W) (A @ [now])"
    if n: "now \<le> n" for n
  proof -
    have imp: "\<And>t. n - t < ?W \<Longrightarrow> now - t < ?W" using n by linarith
    have "filter (\<lambda>t. n - t < ?W) (filter (\<lambda>t. now - t < ?W) (stored rl i))
          = filter (\<lambda>t. n - t < ?W) (stored rl i)"
      using imp by (auto simp: filter_filter intro!: filter_cong)
    also have "\<dots> = filter (\<lambda>t. n - t < ?W) A"
      using inv lo n by (simp add: inv_rl_def)
    finally show ?thesis by (simp add: st)
  qed
  have part2: "int (length (filter (\<lambda>t. a \<le> t \<and> t < a + ?W) (A @ [now]))) \<le> maxRequests rl" for a
  proof (cases "a \<le> now \<and> now < a + ?W")
    case False
    then show ?thesis using inv by (auto simp: inv_rl_def)
  next
    case True
    have "length (filter (\<lambda>t. a \<le> t \<and> t < a + ?W) A) \<le> length (filter (\<lambda>t. now - t < ?W) A)"
      by (rule length_filter_mono) (use True in linarith)
    also have "\<dots> = length (filter (\<lambda>t. now - t < ?W) (stored rl i))" by (simp add: surv)
    finally show ?thesis using lt True by simp
  qed
  show ?thesis unfolding inv_rl_def using part1 part2 by simp
qed

lemma inv_step_weaken: "inv_rl rl i A lo \<Longrightarrow> lo \<le> lo' \<Longrightarrow> inv_rl rl i A lo'"
  by (simp add: inv_rl_def)

lemma inv_step_same:
  "inv_rl rl i A lo \<Longrightarrow> stored rl' i = stored rl i \<Longrightarrow> timeWindow rl' = timeWindow rl \<Longrightarrow>
   maxRequests rl' = maxRequests rl \<Longrightarrow> inv_rl rl' i A lo"
  by (simp add: inv_rl_def)

lemma window_general:
  assumes "inv_rl rl i A lo" "sorted (map fst cs)" "\<forall>c \<in> set cs. lo \<le> fst c"
  shows "int (length (filter (\<lambda>t. a \<le> t \<and> t < a + timeWindow rl) (A @ allowedTimes rl cs i)))
         \<le> maxRequests rl"
  using assms
proof (induction cs arbitrary: rl A lo)
  case Nil
  then show ?case by (simp add: inv_rl_def)
next
  case (Cons c cs)
  obtain now j where c: "c = (now, j)" by (cases c)
  let ?rl' = "snd (checkRateLimit rl now j)"
  have lo: "lo \<le> now" using Cons.prems(3) c by simp
  have lim: "timeWindow ?rl' = timeWindow rl" "maxRequests ?rl' = maxRequests rl" by simp_all
  have srt: "sorted (map fst cs)" and ge: "\<forall>c \<in> set cs. now \<le> fst c"
    using Cons.prems(2) c by auto
  show ?case
  proof (cases "fst (checkRateLimit rl now j) \<and> j = i")
    case True
    then have ji: "j = i" and ok: "fst (checkRateLimit rl now i)" by auto
    have "inv_rl ?rl' i (A @ [now]) now"
      unfolding ji by (rule inv_step_allowed[OF Cons.prems(1) lo ok])
    from Cons.IH[OF this srt ge, unfolded lim]
    have "int (length (filter (\<lambda>t. a \<le> t \<and> t < a + timeWindow rl) ((A @ [now]) @ allowedTimes ?rl' cs i)))
          \<le> maxRequests rl" .
    moreover have "A @ allowedTimes rl (c # cs) i = (A @ [now]) @ allowedTimes ?rl' cs i"
      using ji ok by (simp add: c allowedTimes_Cons)
    ultimately show ?thesis by (simp only:)
  next
    case False
    have "stored ?rl' i = stored rl i"
    proof (cases "j = i")
      case True
      then have "\<not> fst (checkRateLimit rl now j)" using False by simp
      then show ?thesis by (simp add: checkRateLimit_denied)
    next
      case False
      then show ?thesis by (simp add: checkRateLimit_other)
    qed
    then have "inv_rl ?rl' i A now"
      using Cons.prems(1) lo by (auto intro: inv_step_same inv_step_weaken)
    from Cons.IH[OF this srt ge, unfolded lim]
    have "int (length (filter (\<lambda>t. a \<le> t \<and> t < a + timeWindow rl) (A @ allowedTimes ?rl' cs i)))
          \<le> maxRequests rl" .
    moreover have "A @ allowedTimes rl (c # cs) i = A @ allowedTimes ?rl' cs i"
      using False by (auto simp add: c allowedTimes_Cons)
    ultimately show ?thesis by (simp only:)
  qed
qed

text \<open>
  C4. A fresh limiter (nothing stored), a limit that is not negative, and calls whose clock
  readings never go backwards: for every identifier and every \<open>a\<close>, the calls of that
  identifier that were allowed with a reading in the window \<open>[a, a + timeWindow)\<close> number at
  most \<open>maxRequests\<close>. Each call works on the stored timestamps younger than the window:
  with \<open>maxRequests\<close> or more of them it answers \<^verbatim>\<open>false\<close> and the limiter is returned as it
  was; with fewer it answers \<^verbatim>\<open>true\<close> and stores them followed by the current reading.
\<close>

theorem rate_limit_rolling_window:
  assumes "sorted (map fst cs)" and "0 \<le> maxRequests rl" and "requests rl = Map.empty"
  shows "int (length (filter (\<lambda>t. a \<le> t \<and> t < a + timeWindow rl) (allowedTimes rl cs identifier)))
           \<le> maxRequests rl
       \<and> (maxRequests rl0 \<le> int (length (filter (\<lambda>t. now - t < timeWindow rl0) (stored rl0 i)))
            \<longrightarrow> checkRateLimit rl0 now i = (False, rl0))
       \<and> (int (length (filter (\<lambda>t. now - t < timeWindow rl0) (stored rl0 i))) < maxRequests rl0
            \<longrightarrow> checkRateLimit rl0 now i =
                 (True, rl0\<lparr>requests := (requests rl0)
                              (i \<mapsto> filter (\<lambda>t. now - t < timeWindow rl0) (stored rl0 i) @ [now])\<rparr>))"
proof (intro conjI)
  show "int (length (filter (\<lambda>t. a \<le> t \<and> t < a + timeWindow rl) (allowedTimes rl cs identifier)))
          \<le> maxRequests rl"
  proof (cases cs)
    case Nil
    then show ?thesis using assms(2) by simp
  next
    case (Cons c cs')
    have "inv_rl rl identifier [] (fst c)"
      using assms(2,3) by (simp add: inv_rl_def stored_def)
    moreover have "\<forall>d \<in> set cs. fst c \<le> fst d"
      using assms(1) Cons by auto
    ultimately show ?thesis
      using window_general[where rl = rl and i = "identifier" and A = "[]" and lo = "fst c" and cs = cs and a = a]
        assms(1) by simp
  qed
qed (simp_all add: checkRateLimit_def stored_def Let_def)

theorem rate_limit_rolling_window_witness:
  "sorted (map fst demoCalls) \<and> 0 \<le> maxRequests (newRateLimiter 2 1)
   \<and> requests (newRateLimiter 2 1) = Map.empty
   \<and> fst (checkRateLimit_calls (newRateLimiter 2 1) demoCalls) = [True, True, False, True, False]
   \<and> allowedTimes (newRateLimiter 2 1) demoCalls ''a'' = [0, 10, 60000]
   \<and> int (length (filter (\<lambda>t. 0 \<le> t \<and> t < 0 + timeWindow (newRateLimiter 2 1))
                      (allowedTimes (newRateLimiter 2 1) demoCalls ''a''))) \<le> maxRequests (newRateLimiter 2 1)
   \<and> checkRateLimit (newRateLimiter 2 1) 5 ''a''
       = (True, (newRateLimiter 2 1)\<lparr>requests := [''a'' \<mapsto> [5]]\<rparr>)"
proof -
  have s: "sorted (map fst demoCalls)" by (simp add: demoCalls_def)
  have m: "0 \<le> maxRequests (newRateLimiter 2 1)" by (simp add: newRateLimiter_def)
  have e: "requests (newRateLimiter 2 1) = Map.empty" by (simp add: newRateLimiter_def)
  have r: "fst (checkRateLimit_calls (newRateLimiter 2 1) demoCalls) = [True, True, False, True, False]"
    by (simp add: demoCalls_def newRateLimiter_def checkRateLimit_def Let_def)
  have a: "allowedTimes (newRateLimiter 2 1) demoCalls ''a'' = [0, 10, 60000]"
    by (simp add: allowedTimes_def r) (simp add: demoCalls_def)
  show ?thesis
    using s m e r a
      rate_limit_rolling_window[OF s m e, of 0 "''a''" "newRateLimiter 2 1" 5 "''a''"]
    by (simp add: newRateLimiter_def stored_def)
qed

text \<open>
  The window of the bound is half-open. A timestamp exactly \<open>timeWindow\<close> old is already
  dropped (\<^verbatim>\<open>now - timestamp < timeWindow\<close> keeps only the younger ones), so the closed
  interval \<open>[0, 60000]\<close> of the run above holds three allowed calls under a limit of two.
\<close>

lemma rate_limit_closed_interval_example:
  "length (filter (\<lambda>t. 0 \<le> t \<and> t \<le> 0 + timeWindow (newRateLimiter 2 1))
            (allowedTimes (newRateLimiter 2 1) demoCalls ''a'')) = 3"
proof -
  have r: "fst (checkRateLimit_calls (newRateLimiter 2 1) demoCalls) = [True, True, False, True, False]"
    by (simp add: demoCalls_def newRateLimiter_def checkRateLimit_def Let_def)
  have a: "allowedTimes (newRateLimiter 2 1) demoCalls ''a'' = [0, 10, 60000]"
    by (simp add: allowedTimes_def r) (simp add: demoCalls_def)
  show ?thesis unfolding a by (simp add: newRateLimiter_def)
qed

section \<open>Link classification: theorems\<close>

lemma parse_samehost_pdf:
  "parseURL ''https://x.com/z.pdf'' = Some \<lparr>hostname = ''x.com'', pathname = ''/z.pdf''\<rparr>"
  by (simp add: url_defs char_defs str_defs Let_def)

lemma parse_base: "parseURL ''https://x.com/'' = Some \<lparr>hostname = ''x.com'', pathname = ''/''\<rparr>"
  by (simp add: url_defs char_defs str_defs Let_def)

lemma parse_other_pdf:
  "parseURL ''https://y.com/z.pdf'' = Some \<lparr>hostname = ''y.com'', pathname = ''/z.pdf''\<rparr>"
  by (simp add: url_defs char_defs str_defs Let_def)

lemma parse_relative: "parseURL ''about.html'' = None"
  by (simp add: url_defs char_defs str_defs Let_def)

text \<open>
  C1, as stated, fails on the code at two hrefs on the base \<^verbatim>\<open>https://x.com/\<close>. An
  absolute URL on the base's host whose path ends in \<^verbatim>\<open>.pdf\<close> is a file, not internal:
  the file test runs before the host comparison. A relative reference such as
  \<^verbatim>\<open>about.html\<close> is internal, not external: the URL constructor rejects it and the
  \<^verbatim>\<open>catch\<close> returns \<^verbatim>\<open>"internal"\<close>.
\<close>

theorem link_classification_counterexample:
  "getLinkType parseURL ''https://x.com/z.pdf'' ''https://x.com/'' = File
   \<and> claimedLinkType parseURL ''https://x.com/z.pdf'' ''https://x.com/'' = Internal
   \<and> getLinkType parseURL ''about.html'' ''https://x.com/'' = Internal
   \<and> claimedLinkType parseURL ''about.html'' ''https://x.com/'' = External"
  by (simp add: getLinkType_def claimedLinkType_def parse_samehost_pdf parse_base parse_relative
        fileExtensions_def char_defs str_defs)


lemma getLinkType_cases:
  "getLinkType newURL h b =
     (if startsWith h ''mailto:'' then Email
      else if startsWith h ''tel:'' then Phone
      else if startsWith h ''#'' \<or> startsWith h ''/'' then Internal
      else case (newURL h, newURL b) of
             (Some u, Some bu) \<Rightarrow>
               if list_ex (\<lambda>ext. endsWith (toLowerCase (pathname u)) ext) fileExtensions then File
               else if hostname u = hostname bu then Internal else External
           | _ \<Rightarrow> Internal)"
  by (simp add: getLinkType_def split: option.splits)

lemma linkData_total:
  "\<exists>l. linkData newURL b h t ttl = Some l"
  by (cases "newURL h"; cases "newURL b")
     (auto simp: linkData_def getLinkType_def Let_def split: if_splits)

text \<open>
  C1, amended. For every URL constructor, href and base: the type is email exactly when
  the href starts with \<^verbatim>\<open>mailto:\<close>; phone exactly when it does not and starts with
  \<^verbatim>\<open>tel:\<close>; otherwise internal when it starts with \<^verbatim>\<open>#\<close> or \<^verbatim>\<open>/\<close>, or when the
  constructor rejects the href or the base; otherwise file exactly when the href's path,
  lowered, ends with one of the ten extensions, whatever its host; otherwise internal when
  the two hostnames are equal and external when they differ. The link record is always
  built, and its domain is the href's hostname when the type is external and absent
  otherwise.
\<close>

theorem link_classification:
  "(getLinkType newURL h b = Email \<longleftrightarrow> startsWith h ''mailto:'')
   \<and> (getLinkType newURL h b = Phone \<longleftrightarrow> \<not> startsWith h ''mailto:'' \<and> startsWith h ''tel:'')
   \<and> (getLinkType newURL h b = File \<longleftrightarrow>
         \<not> startsWith h ''mailto:'' \<and> \<not> startsWith h ''tel:''
         \<and> \<not> startsWith h ''#'' \<and> \<not> startsWith h ''/''
         \<and> (\<exists>u bu. newURL h = Some u \<and> newURL b = Some bu
               \<and> (\<exists>ext \<in> set fileExtensions. endsWith (toLowerCase (pathname u)) ext)))
   \<and> (getLinkType newURL h b = External \<longleftrightarrow>
         \<not> startsWith h ''mailto:'' \<and> \<not> startsWith h ''tel:''
         \<and> \<not> startsWith h ''#'' \<and> \<not> startsWith h ''/''
         \<and> (\<exists>u bu. newURL h = Some u \<and> newURL b = Some bu
               \<and> \<not> (\<exists>ext \<in> set fileExtensions. endsWith (toLowerCase (pathname u)) ext)
               \<and> hostname u \<noteq> hostname bu))
   \<and> (getLinkType newURL h b = Internal \<longleftrightarrow>
         \<not> startsWith h ''mailto:'' \<and> \<not> startsWith h ''tel:''
         \<and> (startsWith h ''#'' \<or> startsWith h ''/'' \<or> newURL h = None \<or> newURL b = None
              \<or> (\<exists>u bu. newURL h = Some u \<and> newURL b = Some bu
                    \<and> \<not> (\<exists>ext \<in> set fileExtensions. endsWith (toLowerCase (pathname u)) ext)
                    \<and> hostname u = hostname bu)))
   \<and> (\<exists>l. linkData newURL b h t ttl = Some l
          \<and> href l = h \<and> link_type l = getLinkType newURL h b
          \<and> domain l = (if getLinkType newURL h b = External then map_option hostname (newURL h) else None)
          \<and> (domain l \<noteq> None \<longleftrightarrow> getLinkType newURL h b = External))"
proof -
  have kinds: "?thesis" if "newURL h = None \<or> newURL b = None"
    using that
    by (cases "newURL h"; cases "newURL b")
       (auto simp: getLinkType_cases linkData_def Let_def)
  have both: "?thesis" if "newURL h = Some u" "newURL b = Some bu" for u bu
    using that
    by (auto simp: getLinkType_cases linkData_def Let_def list_ex_iff)
  show ?thesis
  proof (cases "newURL h")
    case None
    then show ?thesis by (intro kinds disjI1)
  next
    case hu: (Some u)
    show ?thesis
    proof (cases "newURL b")
      case None
      then show ?thesis by (intro kinds disjI2)
    next
      case (Some bu)
      with hu show ?thesis by (rule both)
    qed
  qed
qed

theorem link_classification_witness:
  "getLinkType parseURL ''https://y.com/z.pdf'' ''https://x.com/'' = File
   \<and> getLinkType parseURL ''/about'' ''https://x.com/'' = Internal
   \<and> getLinkType parseURL ''https://y.com/z'' ''https://x.com/'' = External
   \<and> map_option domain (linkData parseURL ''https://x.com/'' ''/about'' ''About'' None) = Some None
   \<and> map_option domain (linkData parseURL ''https://x.com/'' ''https://y.com/z'' ''Y'' None)
       = Some (Some ''y.com'')
   \<and> map_option domain (linkData parseURL ''https://x.com/'' ''https://y.com/z.pdf'' ''Y'' None) = Some None"
proof -
  have y: "parseURL ''https://y.com/z'' = Some \<lparr>hostname = ''y.com'', pathname = ''/z''\<rparr>"
    by (simp add: url_defs char_defs str_defs Let_def)
  have pre: "\<not> startsWith ''https://y.com/z.pdf'' ''mailto:''" "\<not> startsWith ''https://y.com/z.pdf'' ''tel:''"
    "\<not> startsWith ''https://y.com/z.pdf'' ''#''" "\<not> startsWith ''https://y.com/z.pdf'' ''/''"
    "\<not> startsWith ''https://y.com/z'' ''mailto:''" "\<not> startsWith ''https://y.com/z'' ''tel:''"
    "\<not> startsWith ''https://y.com/z'' ''#''" "\<not> startsWith ''https://y.com/z'' ''/''"
    "startsWith ''/about'' ''/''" "\<not> startsWith ''/about'' ''mailto:''" "\<not> startsWith ''/about'' ''tel:''"
    by (simp_all add: startsWith_def)
  have ext: "\<exists>ext \<in> set fileExtensions. endsWith (toLowerCase ''/z.pdf'') ext"
    "\<not> (\<exists>ext \<in> set fileExtensions. endsWith (toLowerCase ''/z'') ext)"
    by (simp_all add: fileExtensions_def endsWith_def char_defs)
  note a = link_classification[of parseURL "''https://y.com/z.pdf''" "''https://x.com/''" "''Y''" None]
  note b = link_classification[of parseURL "''/about''" "''https://x.com/''" "''About''" None]
  note c = link_classification[of parseURL "''https://y.com/z''" "''https://x.com/''" "''Y''" None]
  have k1: "getLinkType parseURL ''https://y.com/z.pdf'' ''https://x.com/'' = File"
    using a pre ext by (simp add: parse_other_pdf parse_base)
  have k2: "getLinkType parseURL ''/about'' ''https://x.com/'' = Internal"
    using b pre by simp
  have k3: "getLinkType parseURL ''https://y.com/z'' ''https://x.com/'' = External"
    using c pre ext by (simp add: y parse_base)
  from a k1 have d1: "map_option domain (linkData parseURL ''https://x.com/'' ''https://y.com/z.pdf'' ''Y'' None) = Some None"
    by auto
  from b k2 have d2: "map_option domain (linkData parseURL ''https://x.com/'' ''/about'' ''About'' None) = Some None"
    by auto
  from c k3 have d3: "map_option domain (linkData parseURL ''https://x.com/'' ''https://y.com/z'' ''Y'' None) = Some (Some ''y.com'')"
    by (auto simp: y)
  show ?thesis using k1 k2 k3 d1 d2 d3 by simp
qed

section \<open>Image resolution and format: theorems\<close>

lemma split_nonempty: "split c s \<noteq> []"
  by (induction s) (auto split: list.splits)

lemma split_no_sep: "c \<notin> set s \<Longrightarrow> split c s = [s]"
  by (induction s) auto

lemma split_append: "split c (xs @ c # ys) = split c xs @ split c ys"
proof (induction xs)
  case Nil
  show ?case by simp
next
  case (Cons x xs)
  obtain w ws where w: "split c xs = w # ws"
    using split_nonempty[of c xs] by (cases "split c xs") auto
  show ?case using Cons w by simp
qed

lemma last_split: "c \<notin> set ext \<Longrightarrow> last (split c (pre @ c # ext)) = ext"
  by (simp add: split_append split_no_sep)

lemma pop_split: "pop (split c s) = Some (last (split c s))"
  by (simp add: pop_def split_nonempty)

lemma getImageFormat_last:
  "getImageFormat u = Some f \<longleftrightarrow> f \<in> set formats \<and> f = toLowerCase (last (split CHR ''.'' u))"
  by (auto simp: getImageFormat_def pop_split Let_def)

lemma colon_not_in_format: "f \<in> set formats \<Longrightarrow> CHR '':'' \<notin> set f"
  by (auto simp: formats_def)

lemma toLowerChar_colon: "toLowerChar c = CHR '':'' \<longleftrightarrow> c = CHR '':''"
  by (auto simp: toLowerChar_def upperLetters_def lowerLetters_def split: option.splits if_splits)

lemma toLowerCase_colon: "CHR '':'' \<in> set (toLowerCase s) \<longleftrightarrow> CHR '':'' \<in> set s"
proof -
  have "CHR '':'' = toLowerChar c \<longleftrightarrow> CHR '':'' = c" for c
    using toLowerChar_colon[of c] by auto
  then show ?thesis by (induction s) (simp_all add: toLowerCase_def)
qed

lemma getImageFormat_iff:
  "getImageFormat u = Some f \<longleftrightarrow>
     f \<in> set formats \<and>
     ((\<exists>pre ext. u = pre @ ''.'' @ ext \<and> CHR ''.'' \<notin> set ext \<and> f = toLowerCase ext)
      \<or> (CHR ''.'' \<notin> set u \<and> f = toLowerCase u))"
proof (cases "CHR ''.'' \<in> set u")
  case True
  then obtain pre ext where u: "u = pre @ CHR ''.'' # ext" and n: "CHR ''.'' \<notin> set ext"
    by (meson split_list_last)
  have l: "last (split CHR ''.'' u) = ext" unfolding u using n by (rule last_split)
  have uniq: "ext' = ext" if "u = pre' @ ''.'' @ ext'" "CHR ''.'' \<notin> set ext'" for pre' ext'
    using that l last_split[of "CHR ''.''" ext' pre'] by simp
  have u': "u = pre @ ''.'' @ ext" using u by simp
  show ?thesis
  proof
    assume "getImageFormat u = Some f"
    then have "f \<in> set formats" "f = toLowerCase ext"
      unfolding getImageFormat_last l by blast+
    then show "f \<in> set formats \<and>
       ((\<exists>pre ext. u = pre @ ''.'' @ ext \<and> CHR ''.'' \<notin> set ext \<and> f = toLowerCase ext)
        \<or> (CHR ''.'' \<notin> set u \<and> f = toLowerCase u))"
      using u' n by blast
  next
    assume r: "f \<in> set formats \<and>
       ((\<exists>pre ext. u = pre @ ''.'' @ ext \<and> CHR ''.'' \<notin> set ext \<and> f = toLowerCase ext)
        \<or> (CHR ''.'' \<notin> set u \<and> f = toLowerCase u))"
    then have "f = toLowerCase ext" using uniq True by blast
    moreover have "f \<in> set formats" using r by blast
    ultimately show "getImageFormat u = Some f"
      unfolding getImageFormat_last l by blast
  qed
next
  case False
  then have "last (split CHR ''.'' u) = u" by (simp add: split_no_sep)
  then show ?thesis unfolding getImageFormat_last using False by auto
qed

lemma forEach_atomic_from:
  assumes "\<And>x s s'. x \<in> set xs \<Longrightarrow> f x s = Some s' \<Longrightarrow> \<exists>ys. s' = s @ ys \<and> (\<forall>y \<in> set ys. Q x y)"
  shows "\<forall>y \<in> set (fst (forEach (\<lambda>x. atomic (f x)) xs s)). y \<in> set s \<or> (\<exists>x \<in> set xs. Q x y)"
  using assms
proof (induction xs arbitrary: s)
  case Nil
  show ?case by simp
next
  case (Cons x xs)
  show ?case
  proof (cases "f x s")
    case None
    then show ?thesis by (simp add: atomic_def)
  next
    case (Some s')
    obtain ys where ys: "s' = s @ ys" "\<forall>y \<in> set ys. Q x y"
      using Cons.prems[of x s s'] Some by auto
    have IH: "\<forall>y \<in> set (fst (forEach (\<lambda>x. atomic (f x)) xs s')). y \<in> set s' \<or> (\<exists>x \<in> set xs. Q x y)"
      by (rule Cons.IH) (use Cons.prems in auto)
    have e: "fst (forEach (\<lambda>x. atomic (f x)) (x # xs) s) = fst (forEach (\<lambda>x. atomic (f x)) xs s')"
      using Some by (simp add: atomic_def)
    show ?thesis unfolding e using IH ys by auto
  qed
qed

lemma forEach_atomic_all:
  assumes "\<And>x s. x \<in> set xs \<Longrightarrow> f x s = Some (s @ g x)"
  shows "forEach (\<lambda>x. atomic (f x)) xs s = (s @ concat (map g xs), True)"
  using assms
proof (induction xs arbitrary: s)
  case Nil
  show ?case by simp
next
  case (Cons x xs)
  have "f x s = Some (s @ g x)" using Cons.prems by simp
  then have a: "atomic (f x) s = (s @ g x, True)" by (simp add: atomic_def)
  have "forEach (\<lambda>x. atomic (f x)) xs (s @ g x) = ((s @ g x) @ concat (map g xs), True)"
    by (rule Cons.IH) (use Cons.prems in auto)
  then show ?case using a by simp
qed

lemma imageRound_pushes:
  assumes "imageRound resolveHref d baseUrl img acc = Some acc'"
  shows "\<exists>ys. acc' = acc @ ys
           \<and> (\<forall>i \<in> set ys. \<exists>s. getAttribute d img ''src'' = Some (Some s) \<and> s \<noteq> []
                   \<and> resolveHref s baseUrl = Some (src i) \<and> format i = getImageFormat (src i))"
proof -
  obtain s a t w h where at: "getAttribute d img ''src'' = Some s" "getAttribute d img ''alt'' = Some a"
      "getAttribute d img ''title'' = Some t" "getAttribute d img ''width'' = Some w"
      "getAttribute d img ''height'' = Some h"
    using assms by (auto simp: imageRound_def Option.bind_eq_Some_conv)
  show ?thesis
  proof (cases "truthy s")
    case False
    then have "acc' = acc" using assms at by (simp add: imageRound_def)
    then show ?thesis by simp
  next
    case True
    then obtain s0 where s0: "s = Some s0" "s0 \<noteq> []"
      by (cases s) (auto simp: truthy_def)
    obtain a0 where r: "resolveHref s0 baseUrl = Some a0"
      and acc': "acc' = acc @ [\<lparr>src = a0, alt = orDefault a [], img_title = orUndefined t,
                                 width = orUndefined w, height = orUndefined h,
                                 format = getImageFormat a0,
                                 img_size = None, downloaded = None, localPath = None\<rparr>]"
      using assms at True s0
      by (auto simp: imageRound_def orDefault_def Option.bind_eq_Some_conv)
    show ?thesis unfolding acc' using at(1) s0 r by simp
  qed
qed

lemma extractImages_sound:
  assumes "i \<in> set (extractImages resolveHref d baseUrl)"
  shows "\<exists>els img s. findElements d (TagName ''img'') = Some els \<and> img \<in> set els
           \<and> getAttribute d img ''src'' = Some (Some s) \<and> s \<noteq> []
           \<and> resolveHref s baseUrl = Some (src i) \<and> format i = getImageFormat (src i)"
proof (cases "findElements d (TagName ''img'')")
  case None
  then show ?thesis using assms by (simp add: extractImages_def runTry_def await_def)
next
  case (Some els)
  have "\<forall>y \<in> set (fst (forEach (\<lambda>x. atomic (imageRound resolveHref d baseUrl x)) els [])).
          y \<in> set [] \<or> (\<exists>img \<in> set els. \<exists>s. getAttribute d img ''src'' = Some (Some s) \<and> s \<noteq> []
                   \<and> resolveHref s baseUrl = Some (src y) \<and> format y = getImageFormat (src y))"
    by (rule forEach_atomic_from) (rule imageRound_pushes)
  moreover have "i \<in> set (fst (forEach (\<lambda>x. atomic (imageRound resolveHref d baseUrl x)) els []))"
    using assms Some by (simp add: extractImages_def runTry_def await_def)
  ultimately obtain img s where "img \<in> set els" "getAttribute d img ''src'' = Some (Some s)" "s \<noteq> []"
      "resolveHref s baseUrl = Some (src i)" "format i = getImageFormat (src i)"
    by fastforce
  then show ?thesis using Some by blast
qed

lemma extractImages_exact:
  assumes els: "findElements d (TagName ''img'') = Some els"
    and attrs: "\<forall>img \<in> set els. \<forall>a \<in> set [''src'', ''alt'', ''title'', ''width'', ''height''].
                  getAttribute d img a \<noteq> None"
    and res: "\<forall>img \<in> set els. \<forall>s. getAttribute d img ''src'' = Some (Some s) \<and> s \<noteq> []
                  \<longrightarrow> resolveHref s baseUrl \<noteq> None"
  shows "map (\<lambda>i. (src i, format i)) (extractImages resolveHref d baseUrl) =
           concat (map (\<lambda>img. case getAttribute d img ''src'' of
                                 Some (Some s) \<Rightarrow>
                                   (if s = [] then []
                                    else case resolveHref s baseUrl of
                                           Some a \<Rightarrow> [(a, getImageFormat a)]
                                         | None \<Rightarrow> [])
                               | _ \<Rightarrow> []) els)"
proof -
  define g where "g img =
     (case getAttribute d img ''src'' of
        Some (Some s) \<Rightarrow>
          (if s = [] then []
           else case resolveHref s baseUrl of
                  Some a \<Rightarrow> [\<lparr>src = a, alt = orDefault (the (getAttribute d img ''alt'')) [],
                               img_title = orUndefined (the (getAttribute d img ''title'')),
                               width = orUndefined (the (getAttribute d img ''width'')),
                               height = orUndefined (the (getAttribute d img ''height'')),
                               format = getImageFormat a,
                               img_size = None, downloaded = None, localPath = None\<rparr>]
                | None \<Rightarrow> [])
      | _ \<Rightarrow> [])" for img
  have step: "imageRound resolveHref d baseUrl img acc = Some (acc @ g img)" if mem: "img \<in> set els" for img acc
  proof -
    have ne: "getAttribute d img ''src'' \<noteq> None" "getAttribute d img ''alt'' \<noteq> None"
      "getAttribute d img ''title'' \<noteq> None" "getAttribute d img ''width'' \<noteq> None"
      "getAttribute d img ''height'' \<noteq> None"
      using attrs mem by simp_all
    obtain s a t w h where at: "getAttribute d img ''src'' = Some s" "getAttribute d img ''alt'' = Some a"
      "getAttribute d img ''title'' = Some t" "getAttribute d img ''width'' = Some w"
      "getAttribute d img ''height'' = Some h"
      using ne by blast
    show ?thesis
    proof (cases s)
      case None
      then show ?thesis using at by (simp add: imageRound_def g_def truthy_def)
    next
      case (Some s0)
      show ?thesis
      proof (cases "s0 = []")
        case True
        then show ?thesis using at Some by (simp add: imageRound_def g_def truthy_def)
      next
        case False
        then obtain a0 where "resolveHref s0 baseUrl = Some a0"
          using res mem at(1) Some by blast
        then show ?thesis using at Some False
          by (simp add: imageRound_def g_def truthy_def orDefault_def)
      qed
    qed
  qed
  have "forEach (\<lambda>x. atomic (imageRound resolveHref d baseUrl x)) els [] = ([] @ concat (map g els), True)"
    by (rule forEach_atomic_all) (rule step)
  then have "extractImages resolveHref d baseUrl = concat (map g els)"
    using els by (simp add: extractImages_def runTry_def await_def)
  moreover have "map (\<lambda>i. (src i, format i)) (g img) =
       (case getAttribute d img ''src'' of
          Some (Some s) \<Rightarrow>
            (if s = [] then []
             else case resolveHref s baseUrl of Some a \<Rightarrow> [(a, getImageFormat a)] | None \<Rightarrow> [])
        | _ \<Rightarrow> [])" for img
    by (simp add: g_def split: option.splits)
  ultimately show ?thesis by (simp add: map_concat comp_def)
qed

text \<open>
  C8. Every image that \<^verbatim>\<open>extractImages\<close> returns comes from an \<^verbatim>\<open>img\<close> element of the
  page whose \<^verbatim>\<open>src\<close> attribute is set and not empty: the record's \<^verbatim>\<open>src\<close> is the
  \<^verbatim>\<open>href\<close> of that attribute resolved against the base URL by the URL constructor, and
  its \<^verbatim>\<open>format\<close> is what \<^verbatim>\<open>getImageFormat\<close> gives for the resolved \<^verbatim>\<open>src\<close>. When no
  command of the loop rejects, the records are exactly those of the elements with such an
  attribute, in document order. The format of a string is present exactly when the text
  after its last dot, lowered, is one of the eight formats, and is then that lowered text;
  a string without a dot counts whole, which no string with a colon (so no absolute URL)
  can pass.
\<close>

theorem image_src_and_format:
  "(\<forall>i \<in> set (extractImages resolveHref d baseUrl).
      \<exists>els img s. findElements d (TagName ''img'') = Some els \<and> img \<in> set els
        \<and> getAttribute d img ''src'' = Some (Some s) \<and> s \<noteq> []
        \<and> resolveHref s baseUrl = Some (src i) \<and> format i = getImageFormat (src i))
   \<and> (findElements d (TagName ''img'') = Some elements
        \<and> (\<forall>img \<in> set elements. \<forall>a \<in> set [''src'', ''alt'', ''title'', ''width'', ''height''].
               getAttribute d img a \<noteq> None)
        \<and> (\<forall>img \<in> set elements. \<forall>s. getAttribute d img ''src'' = Some (Some s) \<and> s \<noteq> []
               \<longrightarrow> resolveHref s baseUrl \<noteq> None)
       \<longrightarrow> map (\<lambda>i. (src i, format i)) (extractImages resolveHref d baseUrl) =
             concat (map (\<lambda>img. case getAttribute d img ''src'' of
                                   Some (Some s) \<Rightarrow>
                                     (if s = [] then []
                                      else case resolveHref s baseUrl of
                                             Some a \<Rightarrow> [(a, getImageFormat a)]
                                           | None \<Rightarrow> [])
                                 | _ \<Rightarrow> []) elements))
   \<and> (getImageFormat u = Some f \<longleftrightarrow>
        f \<in> set formats \<and>
        ((\<exists>pre ext. u = pre @ ''.'' @ ext \<and> CHR ''.'' \<notin> set ext \<and> f = toLowerCase ext)
         \<or> (CHR ''.'' \<notin> set u \<and> f = toLowerCase u)))
   \<and> (CHR '':'' \<in> set u \<longrightarrow>
        (getImageFormat u = Some f \<longleftrightarrow>
           f \<in> set formats \<and> (\<exists>pre ext. u = pre @ ''.'' @ ext \<and> CHR ''.'' \<notin> set ext \<and> f = toLowerCase ext)))"
proof (intro conjI impI ballI)
  fix i assume "i \<in> set (extractImages resolveHref d baseUrl)"
  then show "\<exists>els img s. findElements d (TagName ''img'') = Some els \<and> img \<in> set els
        \<and> getAttribute d img ''src'' = Some (Some s) \<and> s \<noteq> []
        \<and> resolveHref s baseUrl = Some (src i) \<and> format i = getImageFormat (src i)"
    by (rule extractImages_sound)
next
  assume a: "findElements d (TagName ''img'') = Some elements
        \<and> (\<forall>img \<in> set elements. \<forall>a \<in> set [''src'', ''alt'', ''title'', ''width'', ''height''].
               getAttribute d img a \<noteq> None)
        \<and> (\<forall>img \<in> set elements. \<forall>s. getAttribute d img ''src'' = Some (Some s) \<and> s \<noteq> []
               \<longrightarrow> resolveHref s baseUrl \<noteq> None)"
  show "map (\<lambda>i. (src i, format i)) (extractImages resolveHref d baseUrl) =
             concat (map (\<lambda>img. case getAttribute d img ''src'' of
                                   Some (Some s) \<Rightarrow>
                                     (if s = [] then []
                                      else case resolveHref s baseUrl of
                                             Some a \<Rightarrow> [(a, getImageFormat a)]
                                           | None \<Rightarrow> [])
                                 | _ \<Rightarrow> []) elements)"
    using a extractImages_exact[where d = d and els = elements and resolveHref = resolveHref and baseUrl = baseUrl]
    by blast
next
  show "getImageFormat u = Some f \<longleftrightarrow>
        f \<in> set formats \<and>
        ((\<exists>pre ext. u = pre @ ''.'' @ ext \<and> CHR ''.'' \<notin> set ext \<and> f = toLowerCase ext)
         \<or> (CHR ''.'' \<notin> set u \<and> f = toLowerCase u))"
    by (rule getImageFormat_iff)
next
  assume c: "CHR '':'' \<in> set u"
  have "\<not> (f \<in> set formats \<and> f = toLowerCase u)"
    using c colon_not_in_format[of f] toLowerCase_colon[of u] by auto
  then show "getImageFormat u = Some f \<longleftrightarrow>
           f \<in> set formats \<and> (\<exists>pre ext. u = pre @ ''.'' @ ext \<and> CHR ''.'' \<notin> set ext \<and> f = toLowerCase ext)"
    unfolding getImageFormat_iff by blast
qed

lemma extractImages_imagePage:
  "extractImages demoResolveHref imagePage ''https://x.com/'' =
     [\<lparr>src = ''https://x.com/a.PNG'', alt = [], img_title = None, width = None, height = None,
       format = Some ''png'', img_size = None, downloaded = None, localPath = None\<rparr>,
      \<lparr>src = ''https://y.com/b.png?v=1'', alt = [], img_title = None, width = None, height = None,
       format = None, img_size = None, downloaded = None, localPath = None\<rparr>]"
proof -
  have p1: "parseURL ''/a.PNG'' = None" by (simp add: url_defs char_defs str_defs Let_def)
  have p2: "parseURL ''https://x.com/'' = Some \<lparr>hostname = ''x.com'', pathname = ''/''\<rparr>"
    by (simp add: url_defs char_defs str_defs Let_def)
  have p3: "parseURL ''https://y.com/b.png?v=1'' = Some \<lparr>hostname = ''y.com'', pathname = ''/b.png''\<rparr>"
    by (simp add: url_defs char_defs str_defs Let_def)
  have f1: "getImageFormat ''https://x.com/a.PNG'' = Some ''png''"
    by (simp add: getImageFormat_def formats_def char_defs str_defs Let_def)
  have f2: "getImageFormat ''https://y.com/b.png?v=1'' = None"
    by (simp add: getImageFormat_def formats_def char_defs str_defs Let_def)
  have fe: "findElements imagePage (TagName ''img'') = Some [11, 12]"
    by (simp add: imagePage_def)
  have ga: "getAttribute imagePage 11 ''src'' = Some (Some ''/a.PNG'')"
    "getAttribute imagePage 12 ''src'' = Some (Some ''https://y.com/b.png?v=1'')"
    "\<And>e. getAttribute imagePage e ''alt'' = Some None"
    "\<And>e. getAttribute imagePage e ''title'' = Some None"
    "\<And>e. getAttribute imagePage e ''width'' = Some None"
    "\<And>e. getAttribute imagePage e ''height'' = Some None"
    by (simp_all add: imagePage_def)
  have r1: "demoResolveHref ''/a.PNG'' ''https://x.com/'' = Some ''https://x.com/a.PNG''"
    by (simp add: demoResolveHref_def p1 p2)
  have r2: "demoResolveHref ''https://y.com/b.png?v=1'' ''https://x.com/'' = Some ''https://y.com/b.png?v=1''"
    by (simp add: demoResolveHref_def p3)
  have i1: "imageRound demoResolveHref imagePage ''https://x.com/'' 11 acc =
      Some (acc @ [\<lparr>src = ''https://x.com/a.PNG'', alt = [], img_title = None, width = None, height = None,
                    format = Some ''png'', img_size = None, downloaded = None, localPath = None\<rparr>])" for acc
    by (simp add: imageRound_def ga r1 f1 str_defs)
  have i2: "imageRound demoResolveHref imagePage ''https://x.com/'' 12 acc =
      Some (acc @ [\<lparr>src = ''https://y.com/b.png?v=1'', alt = [], img_title = None, width = None, height = None,
                    format = None, img_size = None, downloaded = None, localPath = None\<rparr>])" for acc
    by (simp add: imageRound_def ga r2 f2 str_defs)
  show ?thesis
    by (simp add: extractImages_def runTry_def await_def atomic_def fe i1 i2)
qed

theorem image_src_and_format_witness:
  "map (\<lambda>i. (src i, format i)) (extractImages demoResolveHref imagePage ''https://x.com/'')
     = [(''https://x.com/a.PNG'', Some ''png''), (''https://y.com/b.png?v=1'', None)]
   \<and> getAttribute imagePage 11 ''src'' = Some (Some ''/a.PNG'')
   \<and> demoResolveHref ''/a.PNG'' ''https://x.com/'' = Some ''https://x.com/a.PNG''
   \<and> CHR '':'' \<in> set ''https://x.com/a.PNG''
   \<and> getImageFormat ''https://x.com/a.PNG'' = Some ''png''
   \<and> getImageFormat ''https://y.com/b.png?v=1'' = None"
proof -
  note t = image_src_and_format[where resolveHref = demoResolveHref and d = imagePage
             and baseUrl = "''https://x.com/''" and elements = "[11, 12]"
             and u = "''https://x.com/a.PNG''" and f = "''png''"]
  have c: "CHR '':'' \<in> set ''https://x.com/a.PNG''" by simp
  have "\<exists>pre ext. ''https://x.com/a.PNG'' = pre @ ''.'' @ ext \<and> CHR ''.'' \<notin> set ext \<and> ''png'' = toLowerCase ext"
    by (rule exI[of _ "''https://x.com/a''"], rule exI[of _ "''PNG''"]) (simp add: char_defs)
  moreover have "''png'' \<in> set formats" by (simp add: formats_def)
  ultimately have f1: "getImageFormat ''https://x.com/a.PNG'' = Some ''png''"
    using t c by blast
  have f2: "getImageFormat ''https://y.com/b.png?v=1'' = None"
    by (simp add: getImageFormat_def formats_def char_defs str_defs Let_def)
  have p1: "parseURL ''/a.PNG'' = None" by (simp add: url_defs char_defs str_defs Let_def)
  have p2: "parseURL ''https://x.com/'' = Some \<lparr>hostname = ''x.com'', pathname = ''/''\<rparr>"
    by (simp add: url_defs char_defs str_defs Let_def)
  have p3: "parseURL ''https://y.com/b.png?v=1'' = Some \<lparr>hostname = ''y.com'', pathname = ''/b.png''\<rparr>"
    by (simp add: url_defs char_defs str_defs Let_def)
  have r1: "demoResolveHref ''/a.PNG'' ''https://x.com/'' = Some ''https://x.com/a.PNG''"
    by (simp add: demoResolveHref_def p1 p2)
  have r2: "demoResolveHref ''https://y.com/b.png?v=1'' ''https://x.com/'' = Some ''https://y.com/b.png?v=1''"
    by (simp add: demoResolveHref_def p3)
  have fe: "findElements imagePage (TagName ''img'') = Some [11, 12]"
    by (simp add: imagePage_def)
  have ga: "getAttribute imagePage 11 ''src'' = Some (Some ''/a.PNG'')"
    "getAttribute imagePage 12 ''src'' = Some (Some ''https://y.com/b.png?v=1'')"
    by (simp_all add: imagePage_def)
  have ne: "getAttribute imagePage e a \<noteq> None" for e a
    by (simp add: imagePage_def blankPage_def)
  have h2: "\<forall>img \<in> set [11, 12]. \<forall>a \<in> set [''src'', ''alt'', ''title'', ''width'', ''height''].
               getAttribute imagePage img a \<noteq> None"
    using ne by blast
  have h3: "\<forall>img \<in> set [11, 12]. \<forall>s. getAttribute imagePage img ''src'' = Some (Some s) \<and> s \<noteq> []
               \<longrightarrow> demoResolveHref s ''https://x.com/'' \<noteq> None"
    by (simp add: ga r1 r2)
  have "map (\<lambda>i. (src i, format i)) (extractImages demoResolveHref imagePage ''https://x.com/'') =
          concat (map (\<lambda>img. case getAttribute imagePage img ''src'' of
                                Some (Some s) \<Rightarrow>
                                  (if s = [] then []
                                   else case demoResolveHref s ''https://x.com/'' of
                                          Some a \<Rightarrow> [(a, getImageFormat a)]
                                        | None \<Rightarrow> [])
                              | _ \<Rightarrow> []) [11, 12])"
    using t fe h2 h3 by blast
  then have m: "map (\<lambda>i. (src i, format i)) (extractImages demoResolveHref imagePage ''https://x.com/'')
     = [(''https://x.com/a.PNG'', Some ''png''), (''https://y.com/b.png?v=1'', None)]"
    by (simp add: ga r1 r2 f1 f2)
  show ?thesis by (intro conjI m ga(1) r1 c f1 f2)
qed

section \<open>Image file names: theorems\<close>

lemma generateImageFilename_clock:
  "generateImageFilename newURL now u fmt = generateImageFilename newURL now' u fmt"
  by (auto simp: generateImageFilename_def orDefault_def Let_def split: option.splits)

text \<open>
  C9. The file name never depends on the clock: the last line of
  \<^verbatim>\<open>generateImageFilename\<close> falls back to a name with \<^verbatim>\<open>Date.now()\<close> only for an empty
  \<open>filename\<close>, and \<open>filename\<close> is never empty, an empty last path segment having been
  replaced by \<^verbatim>\<open>"image"\<close> two lines above. A URL whose path ends in a slash is named
  \<^verbatim>\<open>image\<close>, with the format appended when there is one.
\<close>

theorem generateImageFilename_default_name:
  "generateImageFilename parseURL now ''https://x.com/images/'' None = Some ''image''
   \<and> generateImageFilename parseURL now ''https://x.com/images/'' (Some ''png'') = Some ''image.png''
   \<and> generateImageFilename newURL now u fmt = generateImageFilename newURL 0 u fmt"
proof -
  have p: "parseURL ''https://x.com/images/'' = Some \<lparr>hostname = ''x.com'', pathname = ''/images/''\<rparr>"
    by (simp add: url_defs char_defs str_defs Let_def)
  have a: "generateImageFilename parseURL now ''https://x.com/images/'' None = Some ''image''"
    by (simp add: generateImageFilename_def p pop_def orDefault_def)
  have b: "generateImageFilename parseURL now ''https://x.com/images/'' (Some ''png'') = Some ''image.png''"
    by (simp add: generateImageFilename_def p pop_def orDefault_def)
  show ?thesis using a b generateImageFilename_clock[of newURL now u fmt 0] by (simp only:)
qed

theorem generateImageFilename_default_name_witness:
  "generateImageFilename parseURL 1700000000000 ''https://x.com/images/'' None = Some ''image''
   \<and> generateImageFilename parseURL 1700000000000 ''https://x.com/images/'' (Some ''png'') = Some ''image.png''
   \<and> generateImageFilename parseURL 1700000000000 ''https://x.com/a/logo'' (Some ''png'')
       = generateImageFilename parseURL 0 ''https://x.com/a/logo'' (Some ''png'')"
  using generateImageFilename_default_name[of 1700000000000 parseURL "''https://x.com/a/logo''" "Some ''png''"]
  by simp

lemma generateImageFilename_segment:
  assumes "newURL u = Some urlObj" and "last (split CHR ''/'' (pathname urlObj)) = seg" and "seg \<noteq> []"
  shows "generateImageFilename newURL now u fmt =
           Some (if CHR ''.'' \<notin> set seg \<and> truthy fmt then seg @ ''.'' @ orDefault fmt [] else seg)"
  using assms
  by (auto simp: generateImageFilename_def pop_split orDefault_def truthy_def Let_def split: option.splits)

section \<open>Session teardown: theorems\<close>

lemma scrapeBody_fails:
  "\<not> navigateOk br u \<or> extractAll rt w u = None \<Longrightarrow> scrapeBody rt env now br cfg w u fs = None"
  by (auto simp: scrapeBody_def resolved_def Let_def split: if_splits Option.bind_splits)

lemma scrapeUrl_fresh:
  "scrapeUrl rt env now br \<lparr>driver = None, config = cfg\<rparr> u fs =
     (if \<not> optionsOk br cfg
      then (None, \<lparr>driver = None, config = cfg\<rparr>, [], fs)
      else
        (case build br of
           None \<Rightarrow> (None, \<lparr>driver = None, config = cfg\<rparr>, [], fs)
         | Some w \<Rightarrow>
             if cfg_bypassAntiBot cfg \<and> \<not> stealthScriptOk br
             then (None, \<lparr>driver = Some w, config = cfg\<rparr>, [Built], fs)
             else (case scrapeBody rt env now br cfg w u fs of
                     None \<Rightarrow> (None, \<lparr>driver = Some w, config = cfg\<rparr>, [Built], fs)
                   | Some (r, fs') \<Rightarrow> (Some r, \<lparr>driver = Some w, config = cfg\<rparr>, [Built], fs'))))"
  by (simp add: scrapeUrl_def initDriver_def split: option.splits)

lemma close_events:
  "fst (snd (close br s)) = (if driver s = None then [] else [Quit])"
  by (simp add: close_def split: option.splits)

lemma POST_trace:
  "\<exists>st. fst (snd (POST rt env now br body fs)) =
           (if sessionCreated rt br body then [Built, Quit, Responded st] else [Responded st])"
proof (cases body)
  case None
  then show ?thesis by (simp add: POST_def sessionCreated_def)
next
  case (Some uc)
  obtain u cfg where uc: "uc = (u, cfg)" by (cases uc)
  show ?thesis
  proof (cases "u = [] \<or> rt_newURL rt u = None")
    case True
    then show ?thesis using Some uc by (auto simp: POST_def sessionCreated_def)
  next
    case valid: False
    show ?thesis
    proof (cases "\<not> optionsOk br cfg")
      case True
      then show ?thesis using Some uc valid
        by (simp add: POST_def sessionCreated_def scrapeUrl_fresh close_def)
    next
      case opts: False
      show ?thesis
      proof (cases "build br")
        case None
        then show ?thesis using Some uc valid opts
          by (simp add: POST_def sessionCreated_def scrapeUrl_fresh close_def)
      next
        case (Some w)
        then show ?thesis using \<open>body = Some uc\<close> uc valid opts
          by (auto simp: POST_def sessionCreated_def scrapeUrl_fresh close_def
                   split: option.splits prod.splits)
      qed
    qed
  qed
qed

lemma POST_success:
  "fst (POST rt env now br body fs) = Json r
   \<longrightarrow> fst (snd (POST rt env now br body fs)) = [Built, Quit, Responded 200]"
proof (cases body)
  case None
  then show ?thesis by (simp add: POST_def)
next
  case (Some uc)
  obtain u cfg where uc: "uc = (u, cfg)" by (cases uc)
  show ?thesis
  proof (cases "u = [] \<or> rt_newURL rt u = None")
    case True
    then show ?thesis using Some uc by (auto simp: POST_def)
  next
    case valid: False
    show ?thesis
    proof (cases "\<not> optionsOk br cfg")
      case True
      then show ?thesis using Some uc valid
        by (simp add: POST_def scrapeUrl_fresh close_def)
    next
      case opts: False
      show ?thesis
      proof (cases "build br")
        case None
        then show ?thesis using Some uc valid opts
          by (simp add: POST_def scrapeUrl_fresh close_def)
      next
        case (Some w)
        then show ?thesis using \<open>body = Some uc\<close> uc valid opts
          by (auto simp: POST_def scrapeUrl_fresh close_def
                   split: option.splits prod.splits)
      qed
    qed
  qed
qed

text \<open>
  C7. Whatever the request, the runtime, the backend and the page: the events of one run of
  the \<^verbatim>\<open>POST\<close> handler are the creation of the session, one call of \<^verbatim>\<open>quit()\<close> and
  then the handler's answer when a session is created, and the answer alone when none is
  (no body, no URL, an invalid URL, option calls that throw before the session is built, or
  a backend that builds no session). A scrape that succeeds is answered after the one call
  of \<^verbatim>\<open>quit()\<close>. When a session is created and the navigation rejects or \<^verbatim>\<open>extractAll\<close>
  throws, the session is quit once and the answer, status 500, comes after.
\<close>

theorem session_released_exactly_once:
  "(\<exists>st. fst (snd (POST rt env now br body fs)) =
           (if sessionCreated rt br body then [Built, Quit, Responded st] else [Responded st]))
   \<and> (fst (POST rt env now br body fs) = Json r
       \<longrightarrow> fst (snd (POST rt env now br body fs)) = [Built, Quit, Responded 200])
   \<and> (sessionCreated rt br (Some (u, cfg)) \<and> build br = Some w
        \<and> (\<not> navigateOk br u \<or> extractAll rt w u = None)
       \<longrightarrow> fst (snd (POST rt env now br (Some (u, cfg)) fs)) = [Built, Quit, Responded 500])"
proof (intro conjI impI)
  show "\<exists>st. fst (snd (POST rt env now br body fs)) =
           (if sessionCreated rt br body then [Built, Quit, Responded st] else [Responded st])"
    by (rule POST_trace)
next
  assume "fst (POST rt env now br body fs) = Json r"
  then show "fst (snd (POST rt env now br body fs)) = [Built, Quit, Responded 200]"
    using POST_success[of rt env now br body fs r] by blast
next
  assume a: "sessionCreated rt br (Some (u, cfg)) \<and> build br = Some w
        \<and> (\<not> navigateOk br u \<or> extractAll rt w u = None)"
  then have "\<not> navigateOk br u \<or> extractAll rt w u = None" by (elim conjE)
  then have f: "scrapeBody rt env now br cfg w u fs = None"
    by (rule scrapeBody_fails)
  show "fst (snd (POST rt env now br (Some (u, cfg)) fs)) = [Built, Quit, Responded 500]"
    using a f by (auto simp: POST_def sessionCreated_def scrapeUrl_fresh close_def)
qed

text \<open>
  The instances: with \<^verbatim>\<open>bypassAntiBot\<close> off, a navigation that rejects; and with it on, on
  the backend whose option calls throw, a request that never gets a session.
\<close>

theorem session_released_exactly_once_witness:
  "sessionCreated demoRuntime ((demoBrowser blankPage)\<lparr>navigateOk := (\<lambda>_. False)\<rparr>)
      (Some (''https://x.com/'', plainConfig))
   \<and> build ((demoBrowser blankPage)\<lparr>navigateOk := (\<lambda>_. False)\<rparr>) = Some blankPage
   \<and> \<not> navigateOk ((demoBrowser blankPage)\<lparr>navigateOk := (\<lambda>_. False)\<rparr>) ''https://x.com/''
   \<and> fst (snd (POST demoRuntime demoEnv 0 ((demoBrowser blankPage)\<lparr>navigateOk := (\<lambda>_. False)\<rparr>)
                   (Some (''https://x.com/'', plainConfig)) Map.empty))
       = [Built, Quit, Responded 500]
   \<and> \<not> sessionCreated demoRuntime (demoBrowser blankPage) (Some (''https://x.com/'', demoConfig))
   \<and> fst (snd (POST demoRuntime demoEnv 0 (demoBrowser blankPage)
                   (Some (''https://x.com/'', demoConfig)) Map.empty))
       = [Responded 500]"
proof -
  let ?br = "(demoBrowser blankPage)\<lparr>navigateOk := (\<lambda>_. False)\<rparr>"
  have p: "parseURL ''https://x.com/'' = Some \<lparr>hostname = ''x.com'', pathname = ''/''\<rparr>"
    by (simp add: url_defs char_defs str_defs Let_def)
  have s: "sessionCreated demoRuntime ?br (Some (''https://x.com/'', plainConfig))"
    by (simp add: sessionCreated_def demoRuntime_def demoBrowser_def plainConfig_def p)
  have b: "build ?br = Some blankPage"
    by (simp add: demoBrowser_def)
  have n: "\<not> navigateOk ?br ''https://x.com/''"
    by simp
  have s': "\<not> sessionCreated demoRuntime (demoBrowser blankPage) (Some (''https://x.com/'', demoConfig))"
    by (simp add: sessionCreated_def demoRuntime_def demoBrowser_def demoConfig_def p)
  have t1: "fst (snd (POST demoRuntime demoEnv 0 ?br (Some (''https://x.com/'', plainConfig)) Map.empty))
       = [Built, Quit, Responded 500]"
    using s b n
      session_released_exactly_once[where rt = demoRuntime and env = demoEnv and now = 0
        and br = ?br and u = "''https://x.com/''" and cfg = plainConfig and w = blankPage
        and fs = Map.empty]
    by blast
  have t2: "fst (snd (POST demoRuntime demoEnv 0 (demoBrowser blankPage)
                   (Some (''https://x.com/'', demoConfig)) Map.empty)) = [Responded 500]"
    by (simp add: POST_def scrapeUrl_fresh close_def demoRuntime_def demoBrowser_def demoConfig_def p)
  show ?thesis by (intro conjI s b n s' t1 t2)
qed

section \<open>Image acquisition: theorems\<close>

lemma downloadRound_not_ok:
  "fetch env (src img) = Some r \<Longrightarrow> \<not> ok r \<Longrightarrow>
   downloadRound env newURL now dir img st = st"
  by (simp add: downloadRound_def)

lemma downloadRound_rejected:
  "fetch env (src img) = None \<Longrightarrow>
   downloadRound env newURL now dir img st = (fst st @ [img\<lparr>downloaded := Some False\<rparr>], snd st)"
  by (simp add: downloadRound_def)

lemma downloadRound_ok:
  assumes "fetch env (src img) = Some r" and "ok r"
  shows "downloadRound env newURL now dir img st =
     (case buffer r of
        None \<Rightarrow> (fst st @ [img\<lparr>downloaded := Some False\<rparr>], snd st)
      | Some buf \<Rightarrow>
          (case generateImageFilename newURL now (src img) (format img) of
             None \<Rightarrow> (fst st @ [img\<lparr>downloaded := Some False\<rparr>], snd st)
           | Some filename \<Rightarrow>
               if writeOk env (pathJoin env dir filename)
               then (fst st @ [img\<lparr>img_size := Some (length buf), downloaded := Some True,
                                     localPath := Some (pathJoin env dir filename)\<rparr>],
                     (snd st)(pathJoin env dir filename \<mapsto> buf))
               else (fst st @ [img\<lparr>downloaded := Some False\<rparr>], snd st)))"
  using assms
  by (simp add: downloadRound_def writeFile_def Let_def split: option.splits)

text \<open>What one round pushes: nothing for a response that is not ok, one record otherwise.\<close>

lemma downloadRound_pushes:
  "\<exists>rec. fst (downloadRound env newURL now dir img st) =
           fst st @ (if (case fetch env (src img) of None \<Rightarrow> True | Some r \<Rightarrow> ok r) then [rec] else [])
         \<and> src rec = src img"
proof (cases "fetch env (src img)")
  case None
  then show ?thesis by (simp add: downloadRound_rejected)
next
  case (Some r)
  show ?thesis
  proof (cases "ok r")
    case False
    then show ?thesis using Some by (auto simp: downloadRound_not_ok intro: exI[of _ img])
  next
    case True
    then show ?thesis using Some
      by (auto simp: downloadRound_ok split: option.splits)
  qed
qed

lemma fold_downloadRound:
  "map src (fst (fold (downloadRound env newURL now dir) imgs st)) =
     map src (fst st)
     @ map src (filter (\<lambda>img. case fetch env (src img) of None \<Rightarrow> True | Some r \<Rightarrow> ok r) imgs)"
proof (induction imgs arbitrary: st)
  case Nil
  show ?case by simp
next
  case (Cons img imgs)
  obtain rec where r: "fst (downloadRound env newURL now dir img st) =
           fst st @ (if (case fetch env (src img) of None \<Rightarrow> True | Some r \<Rightarrow> ok r) then [rec] else [])"
    and s: "src rec = src img"
    using downloadRound_pushes[of env newURL now dir img st] by blast
  show ?case
    using Cons.IH[of "downloadRound env newURL now dir img st"] r s by simp
qed

text \<open>
  The images that get a record: all of them when the directory is created and no response
  is not ok; those whose request rejects or whose response is ok, in input order, when the
  directory is created; none when it is not.
\<close>

lemma downloadImages_records:
  "map src (fst (downloadImages env newURL now imgs dir fs)) =
     (if mkdirOk env dir
      then map src (filter (\<lambda>img. case fetch env (src img) of None \<Rightarrow> True | Some r \<Rightarrow> ok r) imgs)
      else [])"
  by (simp add: downloadImages_def fold_downloadRound)

text \<open>
  C3. A batch of three images: the first is served, the second is answered 404, the
  request for the third rejects. The result has two records, the first downloaded with its
  size and path, the third with \<^verbatim>\<open>downloaded: false\<close>; the second image has no record.
  In general a record is pushed for an image only when its request rejects or its response
  is ok, and for no image when the directory cannot be created.
\<close>

theorem downloadImages_drops_not_ok:
  "fst (downloadImages mixedEnv parseURL now
          [mkImage ''https://x.com/a.png'', mkImage ''https://x.com/missing.png'',
           mkImage ''https://x.com/c.png'']
          ''./downloads'' Map.empty)
     = [(mkImage ''https://x.com/a.png'')
          \<lparr>img_size := Some 7, downloaded := Some True, localPath := Some ''./downloads/a.png''\<rparr>,
        (mkImage ''https://x.com/c.png'')\<lparr>downloaded := Some False\<rparr>]
   \<and> map src (fst (downloadImages env newURL now imgs dir fs)) =
       (if mkdirOk env dir
        then map src (filter (\<lambda>img. case fetch env (src img) of None \<Rightarrow> True | Some r \<Rightarrow> ok r) imgs)
        else [])"
proof -
  have p: "parseURL ''https://x.com/a.png'' = Some \<lparr>hostname = ''x.com'', pathname = ''/a.png''\<rparr>"
    by (simp add: url_defs char_defs str_defs Let_def)
  have g: "getImageFormat ''https://x.com/a.png'' = Some ''png''"
    by (simp add: getImageFormat_def formats_def char_defs str_defs Let_def)
  have n: "generateImageFilename parseURL now ''https://x.com/a.png'' (Some ''png'') = Some ''a.png''"
    by (simp add: generateImageFilename_def p pop_def orDefault_def)
  have f: "fetch mixedEnv ''https://x.com/a.png'' = Some \<lparr>ok = True, buffer = Some ''PNGDATA''\<rparr>"
    "fetch mixedEnv ''https://x.com/missing.png'' = Some \<lparr>ok = False, buffer = Some ''Not Found''\<rparr>"
    "fetch mixedEnv ''https://x.com/c.png'' = None"
    "mkdirOk mixedEnv ''./downloads''"
    "writeOk mixedEnv ''./downloads/a.png''"
    "pathJoin mixedEnv ''./downloads'' ''a.png'' = ''./downloads/a.png''"
    by (simp_all add: mixedEnv_def demoEnv_def)
  have s: "src (mkImage u) = u" "format (mkImage ''https://x.com/a.png'') = Some ''png''" for u
    by (simp_all add: mkImage_def g)
  have l: "length ''PNGDATA'' = 7" by simp
  have r1: "downloadRound mixedEnv parseURL now ''./downloads'' (mkImage ''https://x.com/a.png'') ([], Map.empty)
      = ([(mkImage ''https://x.com/a.png'')
            \<lparr>img_size := Some 7, downloaded := Some True, localPath := Some ''./downloads/a.png''\<rparr>],
         [''./downloads/a.png'' \<mapsto> ''PNGDATA''])"
    by (simp add: downloadRound_ok[of mixedEnv "mkImage ''https://x.com/a.png''"
                    "\<lparr>ok = True, buffer = Some ''PNGDATA''\<rparr>"] s f n)
  have r2: "downloadRound mixedEnv parseURL now ''./downloads'' (mkImage ''https://x.com/missing.png'') st = st" for st
    by (rule downloadRound_not_ok[of _ _ "\<lparr>ok = False, buffer = Some ''Not Found''\<rparr>"]) (simp_all add: s f)
  have r3: "downloadRound mixedEnv parseURL now ''./downloads'' (mkImage ''https://x.com/c.png'') st
      = (fst st @ [(mkImage ''https://x.com/c.png'')\<lparr>downloaded := Some False\<rparr>], snd st)" for st
    by (rule downloadRound_rejected) (simp add: s f)
  have "fst (downloadImages mixedEnv parseURL now
          [mkImage ''https://x.com/a.png'', mkImage ''https://x.com/missing.png'',
           mkImage ''https://x.com/c.png'']
          ''./downloads'' Map.empty)
     = [(mkImage ''https://x.com/a.png'')
          \<lparr>img_size := Some 7, downloaded := Some True, localPath := Some ''./downloads/a.png''\<rparr>,
        (mkImage ''https://x.com/c.png'')\<lparr>downloaded := Some False\<rparr>]"
    by (simp add: downloadImages_def f r1 r2 r3)
  then show ?thesis using downloadImages_records[of env newURL now imgs dir fs] by (simp only:)
qed

theorem downloadImages_drops_not_ok_witness:
  "map src (fst (downloadImages mixedEnv parseURL 0
          [mkImage ''https://x.com/a.png'', mkImage ''https://x.com/missing.png'',
           mkImage ''https://x.com/c.png'']
          ''./downloads'' Map.empty))
     = [''https://x.com/a.png'', ''https://x.com/c.png'']
   \<and> fst (downloadImages demoEnv parseURL 0 [mkImage ''https://x.com/missing.png''] ''./downloads'' Map.empty)
       = []"
proof -
  have e: "\<And>u. fetch demoEnv u = Some \<lparr>ok = False, buffer = Some ''Not Found''\<rparr>"
    "mkdirOk demoEnv ''./downloads''"
    by (simp_all add: demoEnv_def)
  show ?thesis
    using downloadImages_drops_not_ok[of 0 demoEnv parseURL "[mkImage ''https://x.com/missing.png'']"
            "''./downloads''" Map.empty] e
    by (simp add: mkImage_def)
qed

section \<open>Contact extraction: theorems\<close>

lemma Times_3: "Times 3 a = Seq a (Seq a (Seq a Eps))"
  by (simp add: numeral_3_eq_3)

lemma rmatch_phoneRegex: "rmatch phoneRegex p = []"
proof -
  have tail: "rmatch (Seq Eoi (Seq (Opt Eoi) (Seq (Seq (Cls f) a) b))) q = []" for f a b q
    by (cases "snd q") simp_all
  have "rmatch (Seq a (Seq Eoi (Seq (Opt Eoi) (Seq (Seq (Cls f) b) c)))) p = []" for a f b c
    by (simp only: rmatch.simps(3)[of a] tail) simp
  then show ?thesis
    by (simp add: phoneRegex_def Seqs_def Times_3)
qed

lemma matchAll_no_match: "(\<And>q. rmatch r q = []) \<Longrightarrow> matchAll r p = []"
proof (induction "snd p" arbitrary: p)
  case Nil
  then show ?case by (subst matchAll.simps) simp
next
  case (Cons c cs)
  have "matchAll r (Some c, cs) = []" using Cons.hyps(1)[of "(Some c, cs)"] Cons.prems by simp
  then show ?case using Cons.hyps(2)[symmetric] Cons.prems
    by (subst matchAll.simps) simp
qed

lemma match_g_phoneRegex: "match_g s phoneRegex = []"
  unfolding match_g_def by (rule matchAll_no_match) (rule rmatch_phoneRegex)

lemma dedupe_set: "set (dedupe xs) = set xs"
  by (induction xs rule: dedupe.induct) auto

lemma distinct_dedupe: "distinct (dedupe xs)"
  by (induction xs rule: dedupe.induct) (auto simp: dedupe_set)

lemma email_scenario:
  "match_g ''Contact us at a@b.com or (212) 555-1234'' emailRegex = [''a@b.com'']"
  by code_simp

lemma address_scenario:
  "match_g ''Contact us at a@b.com or (212) 555-1234'' addressRegex = []"
  by code_simp

lemma textPage_text: "extractTextContent (textPage t) = t"
  by (simp add: extractTextContent_def textPage_def blankPage_def)

text \<open>
  C6. On the page whose rendered text is
  \<^verbatim>\<open>Contact us at a@b.com or (212) 555-1234\<close>, whichever way the engine reads the phone
  pattern, the emails are \<^verbatim>\<open>["a@b.com"]\<close> and the phones are empty. On every page the
  phones are empty: the pattern asks for the end of the input before the first digit. The
  three fields never hold a duplicate.
\<close>

theorem contact_phones_never_extracted:
  "extractContactInfo q (textPage ''Contact us at a@b.com or (212) 555-1234'')
     = \<lparr>emails = [''a@b.com''], phones = [], addresses = []\<rparr>
   \<and> phones (extractContactInfo q d) = []
   \<and> distinct (emails (extractContactInfo q d))
   \<and> distinct (phones (extractContactInfo q d))
   \<and> distinct (addresses (extractContactInfo q d))"
  by (simp add: extractContactInfo_def runTry_def textPage_text email_scenario address_scenario
        match_g_phoneRegex distinct_dedupe Let_def)

theorem contact_phones_never_extracted_witness:
  "phones (extractContactInfo True (textPage ''Call 212-555-1234, 212.555.1234 or +1 212 555 1234'')) = []
   \<and> phones (extractContactInfo False (textPage ''Call 212-555-1234, 212.555.1234 or +1 212 555 1234'')) = []
   \<and> emails (extractContactInfo True (textPage ''Contact us at a@b.com or (212) 555-1234'')) = [''a@b.com'']"
  using contact_phones_never_extracted[of True "textPage ''Call 212-555-1234, 212.555.1234 or +1 212 555 1234''"]
    contact_phones_never_extracted[of False "textPage ''Call 212-555-1234, 212.555.1234 or +1 212 555 1234''"]
  by simp

section \<open>Field isolation in extractAll: theorems\<close>














end
